theory Spec2Isabelle
  imports Main "HOL-Library.Sublist"
begin

section \<open>JavaScript values and strings\<close>

text \<open>
  The frontend is JavaScript. Text is modelled by Isabelle strings, one \<open>char\<close> per
  code unit, so that the model covers the texts whose code units are below 256.
  A dynamically typed argument is a \<open>jsval\<close>: \<open>undefined\<close>, \<open>null\<close>, an
  integer-valued number or a string. The numbers are those that JavaScript prints with
  all their digits, below \<open>10^21\<close> in size.
\<close>

datatype jsval = Undefined | Null | Num int | Str string

definition digit_char :: "nat \<Rightarrow> char" where
  "digit_char d = char_of (48 + d)"

function show_nat :: "nat \<Rightarrow> string" where
  "show_nat n = (if n < 10 then [digit_char n] else show_nat (n div 10) @ [digit_char (n mod 10)])"
  by pat_completeness auto
termination
  by (relation "measure id") auto

definition show_int :: "int \<Rightarrow> string" where
  "show_int i = (if i < 0 then CHR ''-'' # show_nat (nat (- i)) else show_nat (nat i))"

text \<open>\<open>ToString\<close>, as a template literal and \<open>URLSearchParams.append\<close> apply it.\<close>

fun ToString :: "jsval \<Rightarrow> string" where
  "ToString Undefined = ''undefined''"
| "ToString Null = ''null''"
| "ToString (Num i) = show_int i"
| "ToString (Str s) = s"

text \<open>\<open>ToBoolean\<close>: what \<open>if (v)\<close>, \<open>v ? a : b\<close> and \<open>v || d\<close> test.\<close>

fun truthy :: "jsval \<Rightarrow> bool" where
  "truthy Undefined = False"
| "truthy Null = False"
| "truthy (Num i) = (i \<noteq> 0)"
| "truthy (Str s) = (s \<noteq> [])"

text \<open>A default parameter \<open>(p = d)\<close> takes its default exactly when the argument is \<open>undefined\<close>.\<close>

definition param_default :: "jsval \<Rightarrow> jsval \<Rightarrow> jsval" where
  "param_default d v = (if v = Undefined then d else v)"

text \<open>\<open>s.split(c)\<close> for a one-character separator.\<close>

fun split_on :: "char \<Rightarrow> string \<Rightarrow> string list" where
  "split_on c [] = [[]]"
| "split_on c (x # xs) =
     (if x = c then [] # split_on c xs
      else (case split_on c xs of p # ps \<Rightarrow> (x # p) # ps | [] \<Rightarrow> [[x]]))"

text \<open>\<open>a.startsWith(p)\<close>.\<close>

definition startsWith :: "string \<Rightarrow> string \<Rightarrow> bool" where
  "startsWith a p = (take (length p) a = p)"

section \<open>preload.js: the bridge to the backend\<close>

text \<open>
  \<open>process.env\<close> is a map from names to strings, \<open>process.argv\<close> a list of strings.
  Reading a variable that is not set gives \<open>undefined\<close>.
\<close>

type_synonym env = "string \<rightharpoonup> string"

definition env_get :: "env \<Rightarrow> string \<Rightarrow> jsval" where
  "env_get e k = (case e k of None \<Rightarrow> Undefined | Some v \<Rightarrow> Str v)"

text \<open>\<open>const BACKEND_TOKEN = process.env.BACKEND_TOKEN || 'dev-token'\<close>\<close>

definition BACKEND_TOKEN :: "env \<Rightarrow> string" where
  "BACKEND_TOKEN e =
     (if truthy (env_get e ''BACKEND_TOKEN'') then ToString (env_get e ''BACKEND_TOKEN'')
      else ''dev-token'')"

text \<open>
  \<open>resolvePort\<close>: the first argument that starts with \<open>--backend-port=\<close> is looked up
  first, then the environment variable is tested for truthiness, then the argument, and
  the default is last. \<open>arg.split('=')[1]\<close> is the second piece of the argument; an
  array read out of range is \<open>undefined\<close>.
\<close>

definition resolvePort :: "env \<Rightarrow> string list \<Rightarrow> jsval" where
  "resolvePort e argv =
     (let arg = find (\<lambda>a. startsWith a ''--backend-port='') argv in
      if truthy (env_get e ''ACTUAL_BACKEND_PORT'') then env_get e ''ACTUAL_BACKEND_PORT''
      else (case arg of
              Some a \<Rightarrow> (if truthy (Str a)
                         then (case split_on CHR ''='' a of _ # v # _ \<Rightarrow> Str v | _ \<Rightarrow> Undefined)
                         else Str ''8137'')
            | None \<Rightarrow> Str ''8137''))"

text \<open>\<open>const BASE = `http://127.0.0.1:${resolvePort()}`\<close>\<close>

definition BASE :: "env \<Rightarrow> string list \<Rightarrow> string" where
  "BASE e argv = ''http://127.0.0.1:'' @ ToString (resolvePort e argv)"

section \<open>preload.js: the URL of a request\<close>

text \<open>
  \<open>apiGet\<close> and \<open>apiPost\<close> hand the text \<open>BASE + path\<close> to \<open>new URL\<close>, and the
  other operations hand it to \<open>fetch\<close>, which parses it in the same way. The parser is
  the platform's, after the URL Standard; it is modelled here for the texts the bridge
  builds, which start with \<open>http://127.0.0.1:\<close>. It first strips control characters
  and spaces from both ends and removes every tab and newline.
\<close>

definition c0_or_space :: "char \<Rightarrow> bool" where
  "c0_or_space c = ((of_char c :: nat) \<le> 32)"

definition tab_or_newline :: "char \<Rightarrow> bool" where
  "tab_or_newline c = ((of_char c :: nat) \<in> {9, 10, 13})"

definition url_preprocess :: "string \<Rightarrow> string" where
  "url_preprocess s =
     filter (\<lambda>c. \<not> tab_or_newline c)
       (rev (dropWhile c0_or_space (rev (dropWhile c0_or_space s))))"

text \<open>
  Percent-encoding: a character of the set is replaced by \<open>%\<close> and two hexadecimal
  digits for each byte of its UTF-8 form. The path set and the query set of a URL with
  the scheme \<open>http\<close> are those of the URL Standard.
\<close>

definition hex_digit :: "nat \<Rightarrow> char" where
  "hex_digit d = (if d < 10 then char_of (48 + d) else char_of (55 + d))"

definition percent_byte :: "nat \<Rightarrow> string" where
  "percent_byte b = [CHR ''%'', hex_digit (b div 16), hex_digit (b mod 16)]"

definition utf8_bytes :: "char \<Rightarrow> nat list" where
  "utf8_bytes c =
     (let n = (of_char c :: nat) in if n < 128 then [n] else [192 + n div 64, 128 + n mod 64])"

definition path_encode_set :: "char \<Rightarrow> bool" where
  "path_encode_set c =
     (let n = (of_char c :: nat) in
      n \<le> 31 \<or> 126 < n \<or> n \<in> {32, 34, 35, 60, 62, 63, 94, 96, 123, 125})"

definition query_encode_set :: "char \<Rightarrow> bool" where
  "query_encode_set c =
     (let n = (of_char c :: nat) in n \<le> 31 \<or> 126 < n \<or> n \<in> {32, 34, 35, 39, 60, 62})"

definition percent_encode :: "(char \<Rightarrow> bool) \<Rightarrow> string \<Rightarrow> string" where
  "percent_encode in_set s =
     concat (map (\<lambda>c. if in_set c then concat (map percent_byte (utf8_bytes c)) else [c]) s)"

text \<open>
  The path is cut into segments at every \<open>/\<close> and every backslash. A single-dot segment
  is dropped and a double-dot segment takes the segment before it away; when such a
  segment is the last, an empty segment ends the path.
\<close>

definition path_separator :: "char \<Rightarrow> bool" where
  "path_separator c = (c = CHR ''/'' \<or> c = CHR 0x5C)"

fun split_path :: "string \<Rightarrow> string list" where
  "split_path [] = [[]]"
| "split_path (c # cs) =
     (if path_separator c then [] # split_path cs
      else (case split_path cs of p # ps \<Rightarrow> (c # p) # ps | [] \<Rightarrow> [[c]]))"

definition single_dot :: "string \<Rightarrow> bool" where
  "single_dot seg = (seg \<in> {''.'', ''%2e'', ''%2E''})"

definition double_dot :: "string \<Rightarrow> bool" where
  "double_dot seg =
     (seg \<in> {''..'', ''.%2e'', ''.%2E'', ''%2e.'', ''%2E.'',
              ''%2e%2e'', ''%2e%2E'', ''%2E%2e'', ''%2E%2E''})"

fun path_segments :: "string list \<Rightarrow> string list \<Rightarrow> string list" where
  "path_segments acc [] = acc"
| "path_segments acc [seg] =
     (if double_dot seg then butlast acc @ [[]]
      else if single_dot seg then acc @ [[]]
      else acc @ [seg])"
| "path_segments acc (seg # more) =
     path_segments
       (if double_dot seg then butlast acc else if single_dot seg then acc else acc @ [seg])
       more"

text \<open>
  The port is the text between the host and the first of \<open>/\<close>, backslash, \<open>?\<close> and
  \<open>#\<close>. It must be made of digits and be at most 65535, or the parser throws; the
  port 80 of the scheme is left out. With an \<open>@\<close> in that text the host is another
  one and the text before it is credentials, with which \<open>fetch\<close> throws: in both cases
  no request is issued.
\<close>

definition url_delimiter :: "char \<Rightarrow> bool" where
  "url_delimiter c = (path_separator c \<or> c = CHR ''?'' \<or> c = CHR ''#'')"

definition ascii_digit :: "char \<Rightarrow> bool" where
  "ascii_digit c = (48 \<le> (of_char c :: nat) \<and> (of_char c :: nat) \<le> 57)"

definition digits_value :: "string \<Rightarrow> nat" where
  "digits_value ds = foldl (\<lambda>n c. 10 * n + (of_char c - 48)) 0 ds"

text \<open>
  A parsed URL of the bridge: the host is \<open>127.0.0.1\<close>; the port (\<open>None\<close> for 80), the
  segments of the path, and the query that stood in the text, if one did. The fragment
  is not sent. \<open>parse_url\<close> is \<open>None\<close> where the parser or \<open>fetch\<close> throws a
  \<open>TypeError\<close>. The list of ports that \<open>fetch\<close> blocks is not modelled.
\<close>

record url =
  url_port :: "nat option"
  url_path :: "string list"
  url_query :: "string option"

definition parse_url :: "string \<Rightarrow> url option" where
  "parse_url input =
     (let t = url_preprocess input in
      if \<not> startsWith t ''http://127.0.0.1:'' then None
      else
        let rest = drop 17 t;
            port = takeWhile (\<lambda>c. \<not> url_delimiter c) rest;
            after = dropWhile (\<lambda>c. \<not> url_delimiter c) rest;
            path_text = takeWhile (\<lambda>c. c \<noteq> CHR ''?'' \<and> c \<noteq> CHR ''#'') after;
            tail = dropWhile (\<lambda>c. c \<noteq> CHR ''?'' \<and> c \<noteq> CHR ''#'') after
        in
          if \<not> list_all ascii_digit port \<or> 65535 < digits_value port then None
          else Some
            \<lparr>url_port = (if port = [] \<or> digits_value port = 80 then None
                          else Some (digits_value port)),
             url_path = path_segments []
                          (map (percent_encode path_encode_set) (split_path (drop 1 path_text))),
             url_query = (case tail of
                            c # q \<Rightarrow> if c = CHR ''?''
                                     then Some (percent_encode query_encode_set
                                                  (takeWhile (\<lambda>c. c \<noteq> CHR ''#'') q))
                                     else None
                          | [] \<Rightarrow> None)\<rparr>)"

section \<open>preload.js: the operations\<close>

text \<open>
  A call of \<open>fetch\<close> as an operation makes it: the method, the text of the URL as base
  and path, the URL the parser makes of that text (\<open>None\<close> when it throws and no
  request is issued), the parameters appended to the query through \<open>searchParams\<close>
  (their encoding into the query is the platform's and is not modelled), the headers,
  and the object handed to \<open>JSON.stringify\<close> for the body.
\<close>

datatype http_method = GET | POST | PUT | DELETE

record request =
  req_method :: http_method
  req_base :: string
  req_path_text :: string
  req_url :: "url option"
  req_params :: "(string \<times> string) list"
  req_headers :: "(string \<times> string) list"
  req_json :: "(string \<times> jsval) list option"

text \<open>
  \<open>apiGet\<close> and \<open>apiPost\<close>: \<open>new URL(BASE + path)\<close>, then every key of \<open>params\<close> is
  appended to the query with its value converted to a string; the only header is the
  token.
\<close>

definition apiGet :: "env \<Rightarrow> string list \<Rightarrow> string \<Rightarrow> (string \<times> jsval) list \<Rightarrow> request" where
  "apiGet e argv path params =
     \<lparr>req_method = GET, req_base = BASE e argv, req_path_text = path,
      req_url = parse_url (BASE e argv @ path),
      req_params = map (\<lambda>(k, v). (k, ToString v)) params,
      req_headers = [(''X-Auth-Token'', BACKEND_TOKEN e)],
      req_json = None\<rparr>"

definition apiPost :: "env \<Rightarrow> string list \<Rightarrow> string \<Rightarrow> (string \<times> jsval) list \<Rightarrow> request" where
  "apiPost e argv path params =
     \<lparr>req_method = POST, req_base = BASE e argv, req_path_text = path,
      req_url = parse_url (BASE e argv @ path),
      req_params = map (\<lambda>(k, v). (k, ToString v)) params,
      req_headers = [(''X-Auth-Token'', BACKEND_TOKEN e)],
      req_json = None\<rparr>"

text \<open>
  The operations of \<open>emailApi\<close> that issue an HTTP request, with their arguments in the
  order of the source. (\<open>openExternal\<close> is an IPC call to the main process and issues no
  HTTP request.)
\<close>

datatype api_call =
    health
  | sync jsval jsval jsval jsval
  | listMessages jsval jsval jsval
  | getMessage jsval
  | deleteMessage jsval
  | restoreMessage jsval
  | listTrash jsval jsval
  | listAccounts
  | createAccount jsval jsval jsval jsval jsval
  | syncAccount jsval
  | rotatePassword jsval jsval
  | gmailAuthUrl
  | gmailSync jsval
  | deleteAccount jsval

fun emailApi :: "env \<Rightarrow> string list \<Rightarrow> api_call \<Rightarrow> request" where
  "emailApi e argv health = apiGet e argv ''/health'' []"
| "emailApi e argv (sync host username password port) =
     apiPost e argv ''/sync''
       [(''host'', host), (''port'', param_default (Num 993) port),
        (''username'', username), (''password'', password)]"
| "emailApi e argv (listMessages page page_size search) =
     apiGet e argv ''/messages''
       ([(''page'', param_default (Num 1) page),
         (''page_size'', param_default (Num 50) page_size)]
        @ (if truthy (param_default (Str []) search)
           then [(''search'', param_default (Str []) search)] else []))"
| "emailApi e argv (getMessage i) = apiGet e argv (''/messages/'' @ ToString i) []"
| "emailApi e argv (deleteMessage i) =
     apiPost e argv (''/messages/'' @ ToString i @ ''/delete'') []"
| "emailApi e argv (restoreMessage i) =
     apiPost e argv (''/messages/'' @ ToString i @ ''/restore'') []"
| "emailApi e argv (listTrash page page_size) =
     apiGet e argv ''/trash''
       [(''page'', param_default (Num 1) page),
        (''page_size'', param_default (Num 50) page_size)]"
| "emailApi e argv listAccounts = apiGet e argv ''/accounts'' []"
| "emailApi e argv (createAccount email_address imap_host imap_port username password) =
     \<lparr>req_method = POST, req_base = BASE e argv, req_path_text = ''/accounts'',
      req_url = parse_url (BASE e argv @ ''/accounts''),
      req_params = [],
      req_headers = [(''Content-Type'', ''application/json''),
                     (''X-Auth-Token'', BACKEND_TOKEN e)],
      req_json = Some [(''email_address'', email_address), (''imap_host'', imap_host),
                       (''imap_port'', imap_port), (''username'', username),
                       (''password'', password)]\<rparr>"
| "emailApi e argv (syncAccount account_id) =
     apiPost e argv (''/accounts/'' @ ToString account_id @ ''/sync'') []"
| "emailApi e argv (rotatePassword account_id password) =
     \<lparr>req_method = PUT, req_base = BASE e argv,
      req_path_text = ''/accounts/'' @ ToString account_id @ ''/password'',
      req_url = parse_url (BASE e argv @ ''/accounts/'' @ ToString account_id @ ''/password''),
      req_params = [],
      req_headers = [(''Content-Type'', ''application/json''),
                     (''X-Auth-Token'', BACKEND_TOKEN e)],
      req_json = Some [(''password'', password)]\<rparr>"
| "emailApi e argv gmailAuthUrl = apiGet e argv ''/gmail/auth_url'' []"
| "emailApi e argv (gmailSync account_id) =
     apiPost e argv ''/gmail/sync'' [(''account_id'', account_id)]"
| "emailApi e argv (deleteAccount account_id) =
     \<lparr>req_method = DELETE, req_base = BASE e argv,
      req_path_text = ''/accounts/'' @ ToString account_id,
      req_url = parse_url (BASE e argv @ ''/accounts/'' @ ToString account_id),
      req_params = [],
      req_headers = [(''X-Auth-Token'', BACKEND_TOKEN e)],
      req_json = None\<rparr>"

text \<open>
  The interface table of the HTTP API: each row has its methods and its path, a list
  of segments in which \<open>Id\<close> stands for \<open>{id}\<close>.
\<close>

datatype seg = Lit string | Id

definition interface_table :: "(http_method list \<times> seg list) list" where
  "interface_table =
    [([GET], [Lit ''health'']),
     ([POST], [Lit ''sync'']),
     ([GET], [Lit ''messages'']),
     ([GET], [Lit ''messages'', Id]),
     ([POST], [Lit ''messages'', Id, Lit ''delete'']),
     ([POST], [Lit ''messages'', Id, Lit ''restore'']),
     ([GET], [Lit ''trash'']),
     ([GET, POST], [Lit ''accounts'']),
     ([DELETE], [Lit ''accounts'', Id]),
     ([PUT], [Lit ''accounts'', Id, Lit ''password'']),
     ([POST], [Lit ''accounts'', Id, Lit ''sync'']),
     ([GET], [Lit ''gmail'', Lit ''auth_url'']),
     ([GET], [Lit ''gmail'', Lit ''callback'']),
     ([POST], [Lit ''gmail'', Lit ''sync''])]"

text \<open>
  A path, as its segments, is that of a row when every literal segment is the row's and
  every \<open>{id}\<close> is one segment that is not empty.
\<close>

fun matches :: "seg list \<Rightarrow> string list \<Rightarrow> bool" where
  "matches [] [] = True"
| "matches (Lit s # segs) (p # ps) = (p = s \<and> matches segs ps)"
| "matches (Id # segs) (p # ps) = (p \<noteq> [] \<and> matches segs ps)"
| "matches segs ps = False"

definition in_interface :: "http_method \<Rightarrow> string list \<Rightarrow> bool" where
  "in_interface m path =
     list_ex (\<lambda>(ms, segs). m \<in> set ms \<and> matches segs path) interface_table"

text \<open>The identifier an operation splices into its path, if it has one.\<close>

fun id_arg :: "api_call \<Rightarrow> jsval option" where
  "id_arg (getMessage i) = Some i"
| "id_arg (deleteMessage i) = Some i"
| "id_arg (restoreMessage i) = Some i"
| "id_arg (syncAccount i) = Some i"
| "id_arg (rotatePassword i p) = Some i"
| "id_arg (deleteAccount i) = Some i"
| "id_arg c = None"

text \<open>
  An identifier that stays one segment of the path as it is written: its text is not
  empty, is made of printable ASCII characters other than \<open>/\<close>, backslash and those
  the parser cuts at or encodes, and is no dot segment. A port is a port number when
  its text is made of digits and is at most 65535.
\<close>

definition plain_id :: "string \<Rightarrow> bool" where
  "plain_id i =
     (i \<noteq> [] \<and> list_all (\<lambda>c. \<not> path_encode_set c \<and> \<not> path_separator c) i \<and>
      \<not> single_dot i \<and> \<not> double_dot i)"

definition plain_ids :: "api_call \<Rightarrow> bool" where
  "plain_ids c = (case id_arg c of None \<Rightarrow> True | Some i \<Rightarrow> plain_id (ToString i))"

definition port_number :: "string \<Rightarrow> bool" where
  "port_number p = (list_all ascii_digit p \<and> digits_value p \<le> 65535)"

section \<open>renderer.js: text helpers\<close>

text \<open>
  White space as the regular expression class \<open>\s\<close> and \<open>trim\<close> see it, among the
  code units below 256: tab, line feed, vertical tab, form feed, carriage return,
  space and the no-break space.
\<close>

definition is_space :: "char \<Rightarrow> bool" where
  "is_space c = ((of_char c :: nat) \<in> {9, 10, 11, 12, 13, 32, 160})"

text \<open>
  Lower case of one code unit, as \<open>toLowerCase\<close> maps the code units below 256:
  \<open>A\<close> to \<open>Z\<close> and the accented capitals 192 to 222 (but the sign 215) move up by 32.
  Two such code units match under the flag \<open>i\<close> of a regular expression exactly when
  their lower cases are equal.
\<close>

definition lower_char :: "char \<Rightarrow> char" where
  "lower_char c =
     (let n = (of_char c :: nat) in
      if (65 \<le> n \<and> n \<le> 90) \<or> (192 \<le> n \<and> n \<le> 222 \<and> n \<noteq> 215)
      then char_of (n + 32) else c)"

definition toLowerCase :: "string \<Rightarrow> string" where
  "toLowerCase s = map lower_char s"

text \<open>\<open>s.trim()\<close>\<close>

definition trim :: "string \<Rightarrow> string" where
  "trim s = rev (dropWhile is_space (rev (dropWhile is_space s)))"

text \<open>\<open>s.split(/\s+/)\<close>: the pieces between maximal runs of white space.\<close>

function split_ws :: "string \<Rightarrow> string list" where
  "split_ws [] = [[]]"
| "split_ws (c # cs) =
     (if is_space c then [] # split_ws (dropWhile is_space cs)
      else (case split_ws cs of p # ps \<Rightarrow> (c # p) # ps | [] \<Rightarrow> [[c]]))"
  by pat_completeness auto
termination
  by (relation "measure length") (auto simp: less_Suc_eq_le length_dropWhile_le)

text \<open>\<open>s.replace(/\s+/g, ' ')\<close>: every maximal run of white space becomes one space.\<close>

function collapse_ws :: "string \<Rightarrow> string" where
  "collapse_ws [] = []"
| "collapse_ws (c # cs) =
     (if is_space c then CHR '' '' # collapse_ws (dropWhile is_space cs)
      else c # collapse_ws cs)"
  by pat_completeness auto
termination
  by (relation "measure length") (auto simp: less_Suc_eq_le length_dropWhile_le)

text \<open>\<open>hay.indexOf(needle)\<close>: the first position where \<open>needle\<close> starts, or \<open>-1\<close>.\<close>

fun indexOf :: "string \<Rightarrow> string \<Rightarrow> int" where
  "indexOf [] needle = (if needle = [] then 0 else - 1)"
| "indexOf (h # hs) needle =
     (if prefix needle (h # hs) then 0
      else (let i = indexOf hs needle in if i = - 1 then - 1 else i + 1))"

text \<open>\<open>s.slice(a, b)\<close> for \<open>0 \<le> a \<le> b\<close>.\<close>

definition slice :: "string \<Rightarrow> nat \<Rightarrow> nat \<Rightarrow> string" where
  "slice s a b = take (b - a) (drop a s)"

text \<open>
  A field of a JSON object of the backend that holds a string or \<open>null\<close>:
  \<open>v || d\<close> and the interpolation \<open>${v}\<close>.
\<close>

fun or_else :: "string option \<Rightarrow> string \<Rightarrow> string" where
  "or_else None d = d"
| "or_else (Some s) d = (if s = [] then d else s)"

fun interpolate :: "string option \<Rightarrow> string" where
  "interpolate None = ''null''"
| "interpolate (Some s) = s"

text \<open>
  The two characters of the source outside ASCII, the ellipsis U+2026 and the arrow
  U+2192, have no code unit below 256; they are written as their UTF-8 bytes.
\<close>

definition ellipsis :: string where
  "ellipsis = [CHR 0xE2, CHR 0x80, CHR 0xA6]"

definition arrow :: string where
  "arrow = [CHR 0xE2, CHR 0x86, CHR 0x92]"

section \<open>renderer.js: escaping and highlighting\<close>

text \<open>
  \<open>escapeHtml\<close>: \<open>str.replace(/[&<>"']/g, c => table[c])\<close>. Every character of the
  class is replaced by what the table holds for it (a key the table lacks would give
  \<open>undefined\<close>); every other character stays.
\<close>

definition escape_class :: "char set" where
  "escape_class = {CHR ''&'', CHR ''<'', CHR ''>'', CHR 0x22, CHR 0x27}"

definition escape_table :: "(char \<times> string) list" where
  "escape_table =
     [(CHR ''&'', ''&amp;''), (CHR ''<'', ''&lt;''), (CHR ''>'', ''&gt;''),
      (CHR 0x22, ''&quot;''), (CHR 0x27, ''&#39;'')]"

definition escape_char :: "char \<Rightarrow> string" where
  "escape_char c =
     (if c \<in> escape_class
      then (case map_of escape_table c of Some e \<Rightarrow> e | None \<Rightarrow> ''undefined'')
      else [c])"

definition escapeHtml :: "string \<Rightarrow> string" where
  "escapeHtml str = concat (map escape_char str)"

text \<open>The five entities of the table.\<close>

definition entities :: "string set" where
  "entities = {''&amp;'', ''&lt;'', ''&gt;'', ''&quot;'', ''&#39;''}"

text \<open>
  \<open>formatDate\<close>. Parsing and printing a date are the platform's: \<open>ld s\<close> is \<open>None\<close> when
  \<open>new Date(s)\<close> is invalid and the text of \<open>toLocaleString\<close> otherwise.
\<close>

definition formatDate :: "(string \<Rightarrow> string option) \<Rightarrow> string option \<Rightarrow> string" where
  "formatDate ld dateStr =
     (case dateStr of
        None \<Rightarrow> []
      | Some s \<Rightarrow> if s = [] then [] else (case ld s of None \<Rightarrow> s | Some f \<Rightarrow> f))"

text \<open>
  One pass of \<open>out.replace(re, '<mark>$1</mark>')\<close> for the token \<open>t\<close>. The regular
  expression is the token with its special characters escaped, in a group, with the
  flags \<open>i\<close> and \<open>g\<close>: it matches the token literally, ignoring case, from left to
  right without overlaps. The empty token matches at every position.
\<close>

definition ci_prefix :: "string \<Rightarrow> string \<Rightarrow> bool" where
  "ci_prefix t s = (length t \<le> length s \<and> toLowerCase (take (length t) s) = toLowerCase t)"

function mark_all :: "string \<Rightarrow> string \<Rightarrow> string" where
  "mark_all t [] = (if t = [] then ''<mark></mark>'' else [])"
| "mark_all t (c # cs) =
     (if t = [] then ''<mark></mark>'' @ c # mark_all t cs
      else if ci_prefix t (c # cs)
      then ''<mark>'' @ take (length t) (c # cs) @ ''</mark>''
             @ mark_all t (drop (length t) (c # cs))
      else c # mark_all t cs)"
  by pat_completeness auto
termination
  by (relation "measure (\<lambda>(t, s). length s)") auto

definition highlight :: "string \<Rightarrow> string list \<Rightarrow> string" where
  "highlight text tokens =
     (if text = [] then []
      else if tokens = [] then escapeHtml text
      else foldl (\<lambda>out t. mark_all t out) (escapeHtml text) tokens)"

text \<open>\<open>makeSnippet\<close>, with \<open>maxLen = 140\<close>.\<close>

definition first_hit :: "string \<Rightarrow> string list \<Rightarrow> int" where
  "first_hit txt tokens =
     foldl (\<lambda>idx t. let i = indexOf (toLowerCase txt) (toLowerCase t)
                     in if i \<noteq> - 1 \<and> (idx = - 1 \<or> i < idx) then i else idx)
       (- 1) tokens"

definition makeSnippet :: "string \<Rightarrow> string list \<Rightarrow> string" where
  "makeSnippet bodyPlain tokens =
     (if bodyPlain = [] then []
      else let txt = trim (collapse_ws bodyPlain) in
        if tokens = [] then escapeHtml (slice txt 0 140)
        else let idx = first_hit txt tokens;
                 start = (if idx > 20 then nat (idx - 20) else 0);
                 snippet = slice txt start (start + 140);
                 pre = (if start > 0 then ellipsis else []);
                 suffix = (if start + 140 < length txt then ellipsis else [])
             in pre @ snippet @ suffix)"

section \<open>renderer.js: the page\<close>

text \<open>
  A message object of the backend. Its text fields hold a string or \<open>null\<close>; an object
  that lacks one of the fields is not modelled.
\<close>

record message =
  msg_id :: jsval
  subject :: "string option"
  from_addr :: "string option"
  to_addrs :: "string option"
  date_received :: "string option"
  body_plain :: "string option"
  body_html_sanitized :: "string option"
  hidden :: bool

text \<open>
  What the script writes into an element: \<open>textContent\<close> (shown as text, never parsed)
  or \<open>innerHTML\<close> (parsed as markup).
\<close>

datatype dom_write = TextContent string | InnerHTML string

record list_item =
  item_class :: string
  item_html :: string
  item_onclick :: jsval

text \<open>
  The script's variables, the parts of the document it writes, and the calls it has
  issued on \<open>window.emailApi\<close>, oldest first.
\<close>

record state =
  currentMessageId :: jsval
  showingTrash :: bool
  currentSearch :: string
  currentPage :: int
  statusText :: string
  pageIndicator :: string
  prevDisabled :: bool
  nextDisabled :: bool
  msgList_html :: string
  msgList_children :: "list_item list"
  detailSubject :: dom_write
  detailMeta :: dom_write
  detailBody :: dom_write
  deleteBtn_display :: string
  restoreBtn_display :: string
  detailToolbar_display :: string
  issued :: "api_call list"

definition PAGE_SIZE :: nat where
  "PAGE_SIZE = 50"

definition updatePaginationControls :: "nat \<Rightarrow> state \<Rightarrow> state" where
  "updatePaginationControls count s =
     s\<lparr>pageIndicator := ''Page '' @ show_int (currentPage s),
       prevDisabled := (currentPage s = 1),
       nextDisabled := (count < PAGE_SIZE)\<rparr>"

definition div_class :: "string \<Rightarrow> string" where
  "div_class c = ''<div class='' @ [CHR 0x22] @ c @ [CHR 0x22] @ ''>''"

definition item_template :: "string \<Rightarrow> string \<Rightarrow> string \<Rightarrow> string \<Rightarrow> string" where
  "item_template subjectHtml fromAddrHtml bodySnippetHtml dateHtml =
     concat
      [[CHR 0x0A], ''      '', div_class ''row'',
       [CHR 0x0A], ''        '', div_class ''left'',
       [CHR 0x0A], ''          '', div_class ''subject'', subjectHtml, ''</div>'',
       [CHR 0x0A], ''          '', div_class ''from'', fromAddrHtml, ''</div>'',
       [CHR 0x0A], ''          '', div_class ''snippet'', bodySnippetHtml, ''</div>'',
       [CHR 0x0A], ''        </div>'',
       [CHR 0x0A], ''        '', div_class ''right'', dateHtml, ''</div>'',
       [CHR 0x0A], ''      </div>'',
       [CHR 0x0A], ''    '']"

text \<open>The three highlighted texts of a list entry.\<close>

definition subjectHtml :: "string list \<Rightarrow> message \<Rightarrow> string" where
  "subjectHtml tokens m = highlight (or_else (subject m) ''(No Subject)'') tokens"

definition fromAddrHtml :: "string list \<Rightarrow> message \<Rightarrow> string" where
  "fromAddrHtml tokens m = highlight (or_else (from_addr m) []) tokens"

definition bodySnippetHtml :: "string list \<Rightarrow> message \<Rightarrow> string" where
  "bodySnippetHtml tokens m =
     highlight (makeSnippet (or_else (body_plain m) []) tokens) tokens"

definition render_item ::
  "(string \<Rightarrow> string option) \<Rightarrow> string list \<Rightarrow> message \<Rightarrow> list_item" where
  "render_item ld tokens m =
     \<lparr>item_class = ''msg'' @ (if hidden m then '' hidden'' else []),
      item_html = item_template (subjectHtml tokens m) (fromAddrHtml tokens m)
                    (bodySnippetHtml tokens m)
                    (escapeHtml (formatDate ld (date_received m))),
      item_onclick = msg_id m\<rparr>"

text \<open>\<open>(currentSearch || '').split(/\s+/).filter(Boolean)\<close>\<close>

definition search_tokens :: "string \<Rightarrow> string list" where
  "search_tokens q = filter (\<lambda>t. t \<noteq> []) (split_ws q)"

definition renderList ::
  "(string \<Rightarrow> string option) \<Rightarrow> message list \<Rightarrow> state \<Rightarrow> state" where
  "renderList ld messages s =
     (if messages = []
      then s\<lparr>msgList_html := div_class ''no-results'' @ ''No results</div>'',
             msgList_children := []\<rparr>
      else s\<lparr>msgList_html := [],
             msgList_children :=
               map (render_item ld (search_tokens (currentSearch s))) messages\<rparr>)"

text \<open>
  \<open>loadMessages\<close> up to its \<open>await\<close>: the status line and the call. What follows the
  \<open>await\<close> runs when the call settles, on the state of that moment.
\<close>

definition loadMessages :: "state \<Rightarrow> state" where
  "loadMessages s =
     s\<lparr>statusText := ''Loading...'',
       issued := issued s @
         [if showingTrash s
          then listTrash (Num (currentPage s)) (Num (int PAGE_SIZE))
          else listMessages (Num (currentPage s)) (Num (int PAGE_SIZE))
                 (Str (currentSearch s))]\<rparr>"

text \<open>
  How the call of \<open>loadMessages\<close> settles: rejected (with the error's message, if it
  has one), resolved with something that is not an object, or resolved with an object
  whose \<open>messages\<close> is an array or is not.
\<close>

datatype list_response =
    Rejected "string option"
  | NotAnObject
  | Data "message list option"

definition loadMessages_settled ::
  "(string \<Rightarrow> string option) \<Rightarrow> list_response \<Rightarrow> state \<Rightarrow> state" where
  "loadMessages_settled ld r s =
     (case r of
        Rejected msg \<Rightarrow>
          s\<lparr>statusText := ''Error loading messages'' @
               (if or_else msg [] \<noteq> [] then '': '' @ or_else msg [] else [])\<rparr>
      | NotAnObject \<Rightarrow> s\<lparr>statusText := ''Unexpected response''\<rparr>
      | Data ms \<Rightarrow>
          (let messages = (case ms of Some l \<Rightarrow> l | None \<Rightarrow> []);
               s1 = renderList ld messages s;
               s2 = s1\<lparr>statusText :=
                      ''Loaded '' @ show_int (int (length messages)) @ '' messages'' @
                      (if currentSearch s1 \<noteq> []
                       then '' (search='' @ [CHR 0x22] @ currentSearch s1 @ [CHR 0x22] @ '')''
                       else [])\<rparr>
           in updatePaginationControls (length messages) s2))"

text \<open>
  \<open>showDetail\<close>, up to its \<open>await\<close> and after it. The call gives a message object, or
  it is rejected (or gives no object, and reading a field of it throws): both end in
  the \<open>catch\<close> branch.
\<close>

definition showDetail :: "jsval \<Rightarrow> state \<Rightarrow> state" where
  "showDetail i s =
     s\<lparr>currentMessageId := i, statusText := ''Loading message...'',
       issued := issued s @ [getMessage i]\<rparr>"

datatype detail_response = DetailRejected | Detail message

definition showDetail_settled ::
  "(string \<Rightarrow> string option) \<Rightarrow> detail_response \<Rightarrow> state \<Rightarrow> state" where
  "showDetail_settled ld r s =
     (case r of
        DetailRejected \<Rightarrow> s\<lparr>statusText := ''Message not found (maybe deleted)''\<rparr>
      | Detail msg \<Rightarrow>
          s\<lparr>detailSubject := TextContent (or_else (subject msg) ''(No Subject)''),
            detailMeta := TextContent
              (interpolate (from_addr msg) @ '' '' @ arrow @ '' '' @ or_else (to_addrs msg) []
               @ '' | '' @ formatDate ld (date_received msg)),
            detailBody := InnerHTML
              (or_else (body_html_sanitized msg)
                 (''<pre>'' @ escapeHtml (or_else (body_plain msg) []) @ ''</pre>'')),
            deleteBtn_display := (if hidden msg then ''none'' else ''inline-block''),
            restoreBtn_display := (if hidden msg then ''inline-block'' else ''none''),
            detailToolbar_display := ''flex'',
            statusText := ''Message loaded''\<rparr>)"

text \<open>\<open>doDelete\<close>, \<open>doRestore\<close> and \<open>doSync\<close>, each up to its \<open>await\<close> and after it.\<close>

definition doDelete :: "state \<Rightarrow> state" where
  "doDelete s =
     (if \<not> truthy (currentMessageId s) then s
      else s\<lparr>statusText := ''Deleting...'',
             issued := issued s @ [deleteMessage (currentMessageId s)]\<rparr>)"

definition doDelete_settled :: "bool \<Rightarrow> state \<Rightarrow> state" where
  "doDelete_settled ok s =
     (if ok
      then loadMessages
             (s\<lparr>statusText := ''Deleted'', currentMessageId := Null,
                detailSubject := TextContent [], detailMeta := TextContent [],
                detailBody := InnerHTML [], detailToolbar_display := ''none''\<rparr>)
      else s\<lparr>statusText := ''Delete failed''\<rparr>)"

definition doRestore :: "state \<Rightarrow> state" where
  "doRestore s =
     (if \<not> truthy (currentMessageId s) then s
      else s\<lparr>statusText := ''Restoring...'',
             issued := issued s @ [restoreMessage (currentMessageId s)]\<rparr>)"

definition doRestore_settled :: "bool \<Rightarrow> state \<Rightarrow> state" where
  "doRestore_settled ok s =
     (if ok
      then (let s1 = loadMessages (s\<lparr>statusText := ''Restored''\<rparr>)
            in showDetail (currentMessageId s1) s1)
      else s\<lparr>statusText := ''Restore failed''\<rparr>)"

definition doSync :: "string \<Rightarrow> string \<Rightarrow> string \<Rightarrow> state \<Rightarrow> state" where
  "doSync imapHost imapUser imapPass s =
     (let host = trim imapHost; user = trim imapUser; pass = trim imapPass in
      if host = [] \<or> user = [] \<or> pass = []
      then s\<lparr>statusText := ''Enter host, username, password''\<rparr>
      else s\<lparr>statusText := ''Syncing...'',
             issued := issued s @ [sync (Str host) (Str user) (Str pass) Undefined]\<rparr>)"

definition doSync_settled :: "jsval option \<Rightarrow> state \<Rightarrow> state" where
  "doSync_settled r s =
     (case r of
        Some fetched \<Rightarrow>
          loadMessages (s\<lparr>statusText := ''Fetched '' @ ToString fetched @ '' new messages''\<rparr>)
      | None \<Rightarrow> s\<lparr>statusText := ''Sync failed''\<rparr>)"

definition doSearch :: "string \<Rightarrow> state \<Rightarrow> state" where
  "doSearch searchBox s = loadMessages (s\<lparr>currentSearch := trim searchBox, currentPage := 1\<rparr>)"

definition clearSearch :: "state \<Rightarrow> state" where
  "clearSearch s = loadMessages (s\<lparr>currentSearch := [], currentPage := 1\<rparr>)"

definition trashToggle_onchange :: "bool \<Rightarrow> state \<Rightarrow> state" where
  "trashToggle_onchange checked s = loadMessages (s\<lparr>showingTrash := checked, currentPage := 1\<rparr>)"

definition prevPageBtn_onclick :: "state \<Rightarrow> state" where
  "prevPageBtn_onclick s =
     (if currentPage s > 1 then loadMessages (s\<lparr>currentPage := currentPage s - 1\<rparr>) else s)"

definition nextPageBtn_onclick :: "state \<Rightarrow> state" where
  "nextPageBtn_onclick s = loadMessages (s\<lparr>currentPage := currentPage s + 1\<rparr>)"

text \<open>
  What can happen to the page: the user acts on a control (the text and the check mark
  are those of the control at that moment), or a pending call settles. A disabled
  button receives no click.
\<close>

datatype event =
    SyncClick string string string
  | SearchClick string
  | ClearSearchClick
  | TrashToggle bool
  | PrevClick
  | NextClick
  | DeleteClick
  | RestoreClick
  | ItemClick jsval
  | MessagesSettled list_response
  | DetailSettled detail_response
  | DeleteSettled bool
  | RestoreSettled bool
  | SyncSettled "jsval option"

fun step :: "(string \<Rightarrow> string option) \<Rightarrow> state \<Rightarrow> event \<Rightarrow> state" where
  "step ld s (SyncClick h u p) = doSync h u p s"
| "step ld s (SearchClick q) = doSearch q s"
| "step ld s ClearSearchClick = clearSearch s"
| "step ld s (TrashToggle b) = trashToggle_onchange b s"
| "step ld s PrevClick = (if prevDisabled s then s else prevPageBtn_onclick s)"
| "step ld s NextClick = (if nextDisabled s then s else nextPageBtn_onclick s)"
| "step ld s DeleteClick = doDelete s"
| "step ld s RestoreClick = doRestore s"
| "step ld s (ItemClick i) = showDetail i s"
| "step ld s (MessagesSettled r) = loadMessages_settled ld r s"
| "step ld s (DetailSettled r) = showDetail_settled ld r s"
| "step ld s (DeleteSettled ok) = doDelete_settled ok s"
| "step ld s (RestoreSettled ok) = doRestore_settled ok s"
| "step ld s (SyncSettled r) = doSync_settled r s"

text \<open>
  The page when the script has run: the variables have their initial values, the
  document \<open>doc\<close> is as the HTML file has it, and the script's last line has called
  \<open>loadMessages\<close>.
\<close>

definition initial :: "state \<Rightarrow> state" where
  "initial doc =
     loadMessages
       (doc\<lparr>currentMessageId := Null, showingTrash := False, currentSearch := [],
            currentPage := 1, issued := []\<rparr>)"

definition run :: "(string \<Rightarrow> string option) \<Rightarrow> state \<Rightarrow> event list \<Rightarrow> state" where
  "run ld doc evs = foldl (step ld) (initial doc) evs"

text \<open>
  Modelled from the spec: the backend's offset-based \<open>list\<close> of section 4.5, whose code
  is not part of the frontend sources. Of the matching messages in order, page \<open>p\<close>
  (counted from 1) of size \<open>n\<close> holds those from offset \<open>(p - 1) * n\<close>, at most \<open>n\<close> of
  them.
\<close>

definition page_of :: "'a list \<Rightarrow> nat \<Rightarrow> nat \<Rightarrow> 'a list" where
  "page_of xs p n = take n (drop ((p - 1) * n) xs)"

text \<open>
  What \<open>highlight\<close> may add to an escaped text: \<open>marked s out\<close> holds when \<open>out\<close> is
  \<open>s\<close> with whole tags \<open><mark>\<close> and \<open></mark>\<close> put in at some positions and nothing
  else changed.
\<close>

inductive marked :: "string \<Rightarrow> string \<Rightarrow> bool" where
  Done: "marked [] []"
| Keep: "marked s out \<Longrightarrow> marked (c # s) (c # out)"
| Open: "marked s out \<Longrightarrow> marked s (''<mark>'' @ out)"
| Close: "marked s out \<Longrightarrow> marked s (''</mark>'' @ out)"

subsection \<open>Inputs for the examples\<close>

definition empty_doc :: state where
  "empty_doc =
     \<lparr>currentMessageId = Null, showingTrash = False, currentSearch = [], currentPage = 1,
      statusText = [], pageIndicator = [], prevDisabled = False, nextDisabled = False,
      msgList_html = [], msgList_children = [],
      detailSubject = TextContent [], detailMeta = TextContent [], detailBody = InnerHTML [],
      deleteBtn_display = [], restoreBtn_display = [], detailToolbar_display = ''none'',
      issued = []\<rparr>"

definition text_message :: "string \<Rightarrow> string \<Rightarrow> message" where
  "text_message subj body =
     \<lparr>msg_id = Num 7, subject = Some subj, from_addr = Some ''a@b.c'', to_addrs = None,
      date_received = None, body_plain = Some body, body_html_sanitized = None,
      hidden = False\<rparr>"

definition no_dates :: "string \<Rightarrow> string option" where
  "no_dates s = None"

section \<open>The backend, modelled from the specification\<close>

text \<open>
  The sources hold the frontend only. The Message Store, the Sync Orchestrator and the
  Sanitizer are modelled from sections 3 and 4 of the specification, one sync and one
  request at a time (section 4.4 allows no two syncs of an account to interleave).
\<close>

text \<open>
  Modelled from the spec: a raw message as a Mail Source Adapter yields it (4.3), whose
  code is missing: subject, from, to, date, plain body, HTML body and the provider's
  external id, where it has one.
\<close>

record raw_message =
  raw_subject :: string
  raw_from :: string
  raw_to :: string
  raw_date :: string
  raw_body_plain :: string
  raw_body_html :: "string option"
  raw_external_id :: "string option"

text \<open>
  Modelled from the spec: the Message entity of section 3, whose schema is missing. The
  \<open>external_id\<close> is absent for a message without a stable identity (4.1).
\<close>

record stored_message =
  m_id :: nat
  m_account :: nat
  m_external_id :: "string option"
  m_subject :: string
  m_from :: string
  m_to :: string
  m_date :: string
  m_body_plain :: string
  m_body_html_raw :: "string option"
  m_body_html_sanitized :: string
  m_hidden :: bool

text \<open>Modelled from the spec: the AuditLogEntry of section 3, whose schema is missing.\<close>

datatype audit_action = audit_delete | audit_restore

record audit_entry =
  a_account :: nat
  a_message :: nat
  a_action :: audit_action
  a_time :: nat

text \<open>
  Modelled from the spec: the Message Store of section 4.5, whose code is missing:
  the messages in the order of their insertion, the append-only audit log, and the
  next free identifier.
\<close>

record store =
  messages :: "stored_message list"
  audit_log :: "audit_entry list"
  next_id :: nat

text \<open>Modelled from the spec: the two store errors of section 7 that the claims meet.\<close>

datatype store_error = DuplicateKey | NotFound

text \<open>Modelled from the spec: the store before the first sync, with no rows.\<close>

definition empty_store :: store where
  "empty_store = \<lparr>messages = [], audit_log = [], next_id = 1\<rparr>"

text \<open>
  Modelled from the spec: the store's test for a key of an account (4.4: "if
  (account_id, key) already exists in the Message Store"), whose code is missing.
\<close>

definition key_exists :: "store \<Rightarrow> nat \<Rightarrow> string \<Rightarrow> bool" where
  "key_exists st acct k =
     list_ex (\<lambda>m. m_account m = acct \<and> m_external_id m = Some k) (messages st)"

text \<open>
  Modelled from the spec: \<open>insert\<close> of section 4.5, whose code is missing. It fails with
  \<open>DuplicateKey\<close> when the key of the account is stored already; a message without a
  key is treated as unique (4.1) and always stored.
\<close>

definition insert_message ::
  "store \<Rightarrow> nat \<Rightarrow> string option \<Rightarrow> raw_message \<Rightarrow> string \<Rightarrow> store_error + store" where
  "insert_message st acct key raw sanitized =
     (if (case key of Some k \<Rightarrow> key_exists st acct k | None \<Rightarrow> False)
      then Inl DuplicateKey
      else Inr (st\<lparr>messages := messages st @
                  [\<lparr>m_id = next_id st, m_account = acct, m_external_id = key,
                    m_subject = raw_subject raw, m_from = raw_from raw, m_to = raw_to raw,
                    m_date = raw_date raw, m_body_plain = raw_body_plain raw,
                    m_body_html_raw = raw_body_html raw,
                    m_body_html_sanitized = sanitized, m_hidden = False\<rparr>],
                next_id := next_id st + 1\<rparr>))"

text \<open>Modelled from the spec: the summary a sync returns (4.4).\<close>

record summary =
  fetched :: nat
  inserted :: nat
  skipped :: nat

text \<open>
  Modelled from the spec: one message of a sync cycle (4.4), whose code is missing. The
  Dedup Key Resolver \<open>resolve\<close> (4.1) is a pure function of the account and the raw
  message; it gives \<open>None\<close> when no stable identity can be derived, and the message is
  then treated as unique and stored. The Sanitizer \<open>san\<close> (4.2) is a pure function
  of the raw HTML. A \<open>DuplicateKey\<close> of the store is logged and not surfaced (7).
\<close>

definition sync_message ::
  "(nat \<Rightarrow> raw_message \<Rightarrow> string option) \<Rightarrow> (string option \<Rightarrow> string) \<Rightarrow> nat \<Rightarrow>
   store \<times> summary \<Rightarrow> raw_message \<Rightarrow> store \<times> summary" where
  "sync_message resolve san acct acc raw =
     (let st = fst acc; sm = (snd acc)\<lparr>fetched := fetched (snd acc) + 1\<rparr> in
      case resolve acct raw of
        Some k \<Rightarrow>
          if key_exists st acct k then (st, sm\<lparr>skipped := skipped sm + 1\<rparr>)
          else (case insert_message st acct (Some k) raw (san (raw_body_html raw)) of
                  Inr st' \<Rightarrow> (st', sm\<lparr>inserted := inserted sm + 1\<rparr>)
                | Inl e \<Rightarrow> (st, sm))
      | None \<Rightarrow>
          (case insert_message st acct None raw (san (raw_body_html raw)) of
             Inr st' \<Rightarrow> (st', sm\<lparr>inserted := inserted sm + 1\<rparr>)
           | Inl e \<Rightarrow> (st, sm)))"

text \<open>
  Modelled from the spec: a sync cycle of one account over the sequence of raw messages
  its adapter yielded (4.4), committed message by message.
\<close>

definition sync_account ::
  "(nat \<Rightarrow> raw_message \<Rightarrow> string option) \<Rightarrow> (string option \<Rightarrow> string) \<Rightarrow> nat \<Rightarrow>
   store \<Rightarrow> raw_message list \<Rightarrow> store \<times> summary" where
  "sync_account resolve san acct st raws =
     foldl (sync_message resolve san acct)
       (st, \<lparr>fetched = 0, inserted = 0, skipped = 0\<rparr>) raws"

text \<open>The keys in the store, each with its account, in the order of the rows.\<close>

definition stored_keys :: "store \<Rightarrow> (nat \<times> string) list" where
  "stored_keys st =
     List.map_filter (\<lambda>m. map_option (\<lambda>k. (m_account m, k)) (m_external_id m)) (messages st)"

text \<open>
  Modelled from the spec: the lookup of a message by its identifier and the update of
  the hidden flag of the rows with an identifier, whose code is missing.
\<close>

definition find_message :: "store \<Rightarrow> nat \<Rightarrow> stored_message option" where
  "find_message st i = find (\<lambda>m. m_id m = i) (messages st)"

definition set_hidden :: "nat \<Rightarrow> bool \<Rightarrow> stored_message list \<Rightarrow> stored_message list" where
  "set_hidden i b ms = map (\<lambda>m. if m_id m = i then m\<lparr>m_hidden := b\<rparr> else m) ms"

text \<open>
  Modelled from the spec: \<open>hide\<close> of section 4.5, whose code is missing. An unknown
  identifier is \<open>NotFound\<close>. On a visible message it is a transition: the flag is set
  and a \<open>delete\<close> entry with the time \<open>now\<close> is appended to the audit log. On a
  message that is hidden already it is a no-op.
\<close>

definition hide :: "nat \<Rightarrow> nat \<Rightarrow> store \<Rightarrow> store_error + store" where
  "hide now i st =
     (case find_message st i of
        None \<Rightarrow> Inl NotFound
      | Some m \<Rightarrow>
          if m_hidden m then Inr st
          else Inr (st\<lparr>messages := set_hidden i True (messages st),
                      audit_log := audit_log st @
                        [\<lparr>a_account = m_account m, a_message = i,
                          a_action = audit_delete, a_time = now\<rparr>]\<rparr>))"

text \<open>
  Modelled from the spec: \<open>restore\<close> of section 4.5, whose code is missing: the
  counterpart of \<open>hide\<close>, with a \<open>restore\<close> entry.
\<close>

definition restore :: "nat \<Rightarrow> nat \<Rightarrow> store \<Rightarrow> store_error + store" where
  "restore now i st =
     (case find_message st i of
        None \<Rightarrow> Inl NotFound
      | Some m \<Rightarrow>
          if \<not> m_hidden m then Inr st
          else Inr (st\<lparr>messages := set_hidden i False (messages st),
                      audit_log := audit_log st @
                        [\<lparr>a_account = m_account m, a_message = i,
                          a_action = audit_restore, a_time = now\<rparr>]\<rparr>))"

text \<open>The visibility of a message: whether it is stored, and hidden.\<close>

definition visibility :: "store \<Rightarrow> nat \<Rightarrow> bool option" where
  "visibility st i = map_option m_hidden (find_message st i)"

subsection \<open>Inputs for the examples\<close>

definition raw_with_id :: "string option \<Rightarrow> raw_message" where
  "raw_with_id x =
     \<lparr>raw_subject = ''Hello'', raw_from = ''a@b.c'', raw_to = ''d@e.f'',
      raw_date = ''2024-01-01'', raw_body_plain = ''hi'', raw_body_html = None,
      raw_external_id = x\<rparr>"

definition provider_id :: "nat \<Rightarrow> raw_message \<Rightarrow> string option" where
  "provider_id acct raw = raw_external_id raw"

definition no_identity :: "nat \<Rightarrow> raw_message \<Rightarrow> string option" where
  "no_identity acct raw = None"

definition example_sanitize :: "string option \<Rightarrow> string" where
  "example_sanitize h = (case h of None \<Rightarrow> [] | Some t \<Rightarrow> t)"

definition one_hidden :: store where
  "one_hidden =
     \<lparr>messages =
        [\<lparr>m_id = 1, m_account = 1, m_external_id = Some ''X123'', m_subject = ''Hello'',
          m_from = ''a@b.c'', m_to = ''d@e.f'', m_date = ''2024-01-01'', m_body_plain = ''hi'',
          m_body_html_raw = None, m_body_html_sanitized = [], m_hidden = True\<rparr>],
      audit_log = [\<lparr>a_account = 1, a_message = 1, a_action = audit_delete, a_time = 10\<rparr>],
      next_id = 2\<rparr>"

section \<open>The Sanitizer, modelled from the specification\<close>

text \<open>
  Modelled from the spec: the document the Sanitizer of section 4.2 works on, whose code
  is missing: text, and elements with a name, attributes and children. Parsing is the
  HTML library's: \<open>parse\<close> below gives the document of a raw HTML text, or \<open>None\<close> when it
  fails on it.
\<close>

datatype html = Text string | Element string "(string \<times> string) list" "html list"

text \<open>
  Modelled from the spec: which elements are removed (\<open>script\<close> and \<open>style\<close>) and which
  attributes are stripped (the inline event handlers, whose names start with \<open>on\<close>);
  HTML names are compared without regard to case.
\<close>

definition removed_element :: "string \<Rightarrow> bool" where
  "removed_element name = (toLowerCase name = ''script'' \<or> toLowerCase name = ''style'')"

definition event_handler :: "string \<Rightarrow> bool" where
  "event_handler name = (take 2 (toLowerCase name) = ''on'')"

text \<open>
  Modelled from the spec: the blocked placeholder that replaces the URL of an image.
  The specification does not give its text.
\<close>

definition blocked_placeholder :: string where
  "blocked_placeholder = ''about:blank''"

text \<open>
  Modelled from the spec: the attributes of an element that is kept. Event handlers are
  stripped; the \<open>src\<close> of an \<open>img\<close> becomes the placeholder; a \<open>style\<close> is rewritten
  by \<open>css\<close>, the rewriting of CSS \<open>background\<close> URLs, which gives the new style and the
  URLs it took out.
\<close>

definition sanitize_attr ::
  "(string \<Rightarrow> string \<times> string list) \<Rightarrow> string \<Rightarrow> string \<times> string \<Rightarrow> string \<times> string" where
  "sanitize_attr css name a =
     (if toLowerCase name = ''img'' \<and> toLowerCase (fst a) = ''src''
      then (fst a, blocked_placeholder)
      else if toLowerCase (fst a) = ''style'' then (fst a, fst (css (snd a)))
      else a)"

definition sanitize_attrs ::
  "(string \<Rightarrow> string \<times> string list) \<Rightarrow> string \<Rightarrow> (string \<times> string) list \<Rightarrow>
   (string \<times> string) list" where
  "sanitize_attrs css name attrs =
     map (sanitize_attr css name) (filter (\<lambda>a. \<not> event_handler (fst a)) attrs)"

definition attr_sources ::
  "(string \<Rightarrow> string \<times> string list) \<Rightarrow> string \<Rightarrow> string \<times> string \<Rightarrow> string list" where
  "attr_sources css name a =
     (if toLowerCase name = ''img'' \<and> toLowerCase (fst a) = ''src'' then [snd a]
      else if toLowerCase (fst a) = ''style'' then snd (css (snd a))
      else [])"

text \<open>
  Modelled from the spec: the sanitized nodes of a node, and the image sources captured
  from it. A removed element goes with everything in it.
\<close>

fun sanitize_node :: "(string \<Rightarrow> string \<times> string list) \<Rightarrow> html \<Rightarrow> html list" where
  "sanitize_node css (Text t) = [Text t]"
| "sanitize_node css (Element name attrs kids) =
     (if removed_element name then []
      else [Element name (sanitize_attrs css name attrs)
              (concat (map (sanitize_node css) kids))])"

fun image_sources :: "(string \<Rightarrow> string \<times> string list) \<Rightarrow> html \<Rightarrow> string list" where
  "image_sources css (Text t) = []"
| "image_sources css (Element name attrs kids) =
     (if removed_element name then []
      else concat (map (attr_sources css name) (filter (\<lambda>a. \<not> event_handler (fst a)) attrs))
           @ concat (map (image_sources css) kids))"

text \<open>
  Modelled from the spec: the Sanitizer of section 4.2. The input may be absent. When
  the parser fails, the raw text is wrapped as plain text; the Sanitizer has no failure
  of its own. The result is the document that is safe to display and the list of
  image sources.
\<close>

definition sanitize ::
  "(string \<Rightarrow> html list option) \<Rightarrow> (string \<Rightarrow> string \<times> string list) \<Rightarrow> string option \<Rightarrow>
   html list \<times> string list" where
  "sanitize parse css raw =
     (case raw of
        None \<Rightarrow> ([], [])
      | Some h \<Rightarrow>
          (case parse h of
             None \<Rightarrow> ([Element ''pre'' [] [Text h]], [])
           | Some doc \<Rightarrow>
               (concat (map (sanitize_node css) doc), concat (map (image_sources css) doc))))"

text \<open>Whether a node holds a \<open>script\<close> element, or an event-handler attribute, at any depth.\<close>

fun has_script :: "html \<Rightarrow> bool" where
  "has_script (Text t) = False"
| "has_script (Element name attrs kids) =
     (toLowerCase name = ''script'' \<or> list_ex has_script kids)"

fun has_handler :: "html \<Rightarrow> bool" where
  "has_handler (Text t) = False"
| "has_handler (Element name attrs kids) =
     (list_ex (\<lambda>a. event_handler (fst a)) attrs \<or> list_ex has_handler kids)"

subsection \<open>Inputs for the examples\<close>

text \<open>
  A parser for the examples: it knows one document, and fails on every other text.
\<close>

definition example_parse :: "string \<Rightarrow> html list option" where
  "example_parse h =
     (if h = ''<p onclick=x>hi<script>y</script></p>''
      then Some [Element ''p'' [(''onclick'', ''x'')] [Text ''hi'', Element ''script'' [] [Text ''y'']]]
      else None)"

definition example_css :: "string \<Rightarrow> string \<times> string list" where
  "example_css v = (v, [])"

section \<open>The bridge: port, token and paths\<close>

lemma split_on_eq_prefix:
  "split_on CHR ''='' (''--backend-port='' @ rest) =
     ''--backend-port'' # split_on CHR ''='' rest"
  by simp

text \<open>
  C4: every operation of \<open>emailApi\<close> that issues an HTTP request, with any arguments,
  sends the header \<open>X-Auth-Token\<close> with the value \<open>BACKEND_TOKEN\<close>.
\<close>

theorem emailApi_sends_token:
  "map_of (req_headers (emailApi e argv c)) ''X-Auth-Token'' = Some (BACKEND_TOKEN e)"
  by (cases c) (simp_all add: apiGet_def apiPost_def)


lemma split_on_hd: "\<exists>ps. split_on c s = takeWhile (\<lambda>x. x \<noteq> c) s # ps"
  by (induction s) (auto split: list.splits)

lemma startsWith_decomp: "startsWith a p \<Longrightarrow> a = p @ drop (length p) a"
  by (metis append_take_drop_id startsWith_def)

text \<open>
  For an argument that starts with the 15 characters \<open>--backend-port=\<close>, the second
  piece of \<open>split('=')\<close> is the text after them, up to the next \<open>=\<close> if there is one.
\<close>

lemma second_piece:
  assumes "startsWith a ''--backend-port=''"
  shows "\<exists>ps. split_on CHR ''='' a =
           ''--backend-port'' # takeWhile (\<lambda>x. x \<noteq> CHR ''='') (drop 15 a) # ps"
proof -
  define rest where "rest = drop 15 a"
  have len: "length ''--backend-port='' = 15" by simp
  have "a = ''--backend-port='' @ drop (length ''--backend-port='') a"
    by (rule startsWith_decomp [OF assms])
  then have a: "a = ''--backend-port='' @ rest"
    unfolding len rest_def .
  obtain ps where "split_on CHR ''='' rest = takeWhile (\<lambda>x. x \<noteq> CHR ''='') rest # ps"
    using split_on_hd by blast
  then have "split_on CHR ''='' a =
      ''--backend-port'' # takeWhile (\<lambda>x. x \<noteq> CHR ''='') rest # ps"
    using split_on_eq_prefix [of rest] a by simp
  then show ?thesis unfolding rest_def by blast
qed

text \<open>
  C10, as the code has it: \<open>resolvePort\<close> is a function of the environment and the
  argument list, with a fixed precedence. It returns \<open>ACTUAL_BACKEND_PORT\<close> when that
  variable is set to a non-empty string; otherwise, for the first argument \<open>a\<close> that
  starts with \<open>--backend-port=\<close>, the text of \<open>a\<close> after that prefix up to the next
  \<open>=\<close>; otherwise \<open>8137\<close>, and then every request of \<open>emailApi\<close> has the base
  \<open>http://127.0.0.1:8137\<close>. A variable set to the empty string counts as not set.
\<close>

theorem resolvePort_precedence:
  "(e ''ACTUAL_BACKEND_PORT'' = Some v \<and> v \<noteq> [] \<longrightarrow> resolvePort e argv = Str v) \<and>
   ((e ''ACTUAL_BACKEND_PORT'' = None \<or> e ''ACTUAL_BACKEND_PORT'' = Some []) \<and>
      find (\<lambda>a. startsWith a ''--backend-port='') argv = Some a \<longrightarrow>
      resolvePort e argv = Str (takeWhile (\<lambda>x. x \<noteq> CHR ''='') (drop 15 a))) \<and>
   ((e ''ACTUAL_BACKEND_PORT'' = None \<or> e ''ACTUAL_BACKEND_PORT'' = Some []) \<and>
      find (\<lambda>a. startsWith a ''--backend-port='') argv = None \<longrightarrow>
      resolvePort e argv = Str ''8137'' \<and>
      req_base (emailApi e argv c) = ''http://127.0.0.1:8137'')"
proof (intro conjI impI)
  assume "e ''ACTUAL_BACKEND_PORT'' = Some v \<and> v \<noteq> []"
  then show "resolvePort e argv = Str v"
    by (simp add: resolvePort_def env_get_def Let_def)
next
  assume h: "(e ''ACTUAL_BACKEND_PORT'' = None \<or> e ''ACTUAL_BACKEND_PORT'' = Some []) \<and>
      find (\<lambda>a. startsWith a ''--backend-port='') argv = Some a"
  then have sw: "startsWith a ''--backend-port=''"
    by (auto simp: find_Some_iff)
  then have "a \<noteq> []" by (auto simp: startsWith_def)
  moreover obtain ps where "split_on CHR ''='' a =
      ''--backend-port'' # takeWhile (\<lambda>x. x \<noteq> CHR ''='') (drop 15 a) # ps"
    using second_piece [OF sw] by blast
  ultimately show "resolvePort e argv = Str (takeWhile (\<lambda>x. x \<noteq> CHR ''='') (drop 15 a))"
    using h by (auto simp: resolvePort_def env_get_def Let_def)
next
  assume h: "(e ''ACTUAL_BACKEND_PORT'' = None \<or> e ''ACTUAL_BACKEND_PORT'' = Some []) \<and>
      find (\<lambda>a. startsWith a ''--backend-port='') argv = None"
  then show r: "resolvePort e argv = Str ''8137''"
    by (auto simp: resolvePort_def env_get_def Let_def)
  then have "BASE e argv = ''http://127.0.0.1:8137''"
    by (simp add: BASE_def)
  then show "req_base (emailApi e argv c) = ''http://127.0.0.1:8137''"
    by (cases c) (simp_all add: apiGet_def apiPost_def)
qed

theorem resolvePort_precedence_witness:
  "resolvePort (Map.empty(''ACTUAL_BACKEND_PORT'' \<mapsto> ''9000'')) [''--backend-port=8140'']
     = Str ''9000'' \<and>
   resolvePort Map.empty [''electron'', ''--backend-port=8140''] = Str ''8140'' \<and>
   resolvePort Map.empty [''electron''] = Str ''8137'' \<and>
   req_base (emailApi Map.empty [''electron''] health) = ''http://127.0.0.1:8137''"
  using resolvePort_precedence [of "Map.empty(''ACTUAL_BACKEND_PORT'' \<mapsto> ''9000'')"
          "''9000''" "[''--backend-port=8140'']"]
        resolvePort_precedence [of Map.empty _ "[''electron'', ''--backend-port=8140'']"
          "''--backend-port=8140''"]
        resolvePort_precedence [of Map.empty _ "[''electron'']" _ health]
  by (simp add: startsWith_def)

text \<open>
  The claim as it is written fails in two places: with \<open>ACTUAL_BACKEND_PORT\<close> set to
  the empty string the variable's value is not returned (the default is), and for the
  argument \<open>--backend-port=80=81\<close> the result is \<open>80\<close>, not the text \<open>80=81\<close> that
  follows the prefix.
\<close>

theorem resolvePort_counterexample:
  "(Map.empty(''ACTUAL_BACKEND_PORT'' \<mapsto> [])) ''ACTUAL_BACKEND_PORT'' = Some [] \<and>
   resolvePort (Map.empty(''ACTUAL_BACKEND_PORT'' \<mapsto> [])) [] = Str ''8137'' \<and>
   resolvePort Map.empty [''--backend-port=80=81''] = Str ''80''"
  by (simp add: resolvePort_def env_get_def startsWith_def)


section \<open>The bridge: the paths of the requests\<close>

lemma dropWhile_none: "list_all (\<lambda>c. \<not> P c) s \<Longrightarrow> dropWhile P s = s"
  by (cases s) auto

lemma filter_all: "list_all P s \<Longrightarrow> filter P s = s"
  by (induction s) auto

lemma url_preprocess_visible:
  assumes "list_all (\<lambda>c. \<not> c0_or_space c) s"
  shows "url_preprocess s = s"
proof -
  have 1: "dropWhile c0_or_space s = s" using assms by (rule dropWhile_none)
  have "list_all (\<lambda>c. \<not> c0_or_space c) (rev s)" using assms by (simp add: list_all_iff)
  then have 2: "dropWhile c0_or_space (rev s) = rev s" by (rule dropWhile_none)
  have "list_all (\<lambda>c. \<not> tab_or_newline c) s"
    using assms by (auto simp: list_all_iff c0_or_space_def tab_or_newline_def)
  then show ?thesis by (simp add: url_preprocess_def 1 2 filter_all)
qed

lemma digit_facts:
  "ascii_digit c \<Longrightarrow> \<not> c0_or_space c \<and> \<not> url_delimiter c"
proof -
  assume d: "ascii_digit c"
  have "(of_char (CHR ''/'') :: nat) = 47" "(of_char (CHR 0x5C) :: nat) = 92"
    "(of_char (CHR ''?'') :: nat) = 63" "(of_char (CHR ''#'') :: nat) = 35"
    by simp_all
  with d show ?thesis
    by (auto simp: ascii_digit_def c0_or_space_def url_delimiter_def path_separator_def)
qed

lemma plain_char_facts:
  "\<not> path_encode_set c \<Longrightarrow> \<not> c0_or_space c \<and> c \<noteq> CHR ''?'' \<and> c \<noteq> CHR ''#''"
  by (auto simp: path_encode_set_def c0_or_space_def Let_def)

lemma percent_encode_plain:
  "list_all (\<lambda>c. \<not> in_set c) s \<Longrightarrow> percent_encode in_set s = s"
  by (induction s) (auto simp: percent_encode_def)

lemma split_path_all:
  "list_all Q s \<Longrightarrow> seg \<in> set (split_path s) \<Longrightarrow> list_all Q seg"
  by (induction s arbitrary: seg) (auto split: if_splits list.splits)

lemma split_path_encode:
  assumes "list_all (\<lambda>c. \<not> path_encode_set c) body"
  shows "map (percent_encode path_encode_set) (split_path body) = split_path body"
proof -
  have "percent_encode path_encode_set seg = seg" if "seg \<in> set (split_path body)" for seg
    using split_path_all [OF assms that] by (rule percent_encode_plain)
  then show ?thesis by (simp add: map_idI)
qed

lemma parse_url_plain:
  assumes p: "port_number P" and b: "list_all (\<lambda>c. \<not> path_encode_set c) body"
  shows "parse_url (''http://127.0.0.1:'' @ P @ CHR ''/'' # body) =
     Some \<lparr>url_port = (if P = [] \<or> digits_value P = 80 then None else Some (digits_value P)),
           url_path = path_segments [] (split_path body),
           url_query = None\<rparr>"
proof -
  let ?t = "''http://127.0.0.1:'' @ P @ CHR ''/'' # body"
  from p have d: "list_all ascii_digit P" and v: "digits_value P \<le> 65535"
    by (simp_all add: port_number_def)
  have vis: "list_all (\<lambda>c. \<not> c0_or_space c) ?t"
    using d b digit_facts plain_char_facts by (auto simp: list_all_iff c0_or_space_def)
  have pre: "url_preprocess ?t = ?t" using vis by (rule url_preprocess_visible)
  have sw: "startsWith ?t ''http://127.0.0.1:''" by (simp add: startsWith_def)
  have dr: "drop 17 ?t = P @ CHR ''/'' # body" by simp
  have nd: "\<forall>c\<in>set P. \<not> url_delimiter c" using d digit_facts by (auto simp: list_all_iff)
  have sl: "url_delimiter CHR ''/''" by (simp add: url_delimiter_def path_separator_def)
  have tw: "takeWhile (\<lambda>c. \<not> url_delimiter c) (P @ CHR ''/'' # body) = P"
    using nd sl by (simp add: takeWhile_append2)
  have dw: "dropWhile (\<lambda>c. \<not> url_delimiter c) (P @ CHR ''/'' # body) = CHR ''/'' # body"
    using nd sl by (simp add: dropWhile_append2)
  have nq: "\<forall>c\<in>set (CHR ''/'' # body). c \<noteq> CHR ''?'' \<and> c \<noteq> CHR ''#''"
    using b plain_char_facts by (auto simp: list_all_iff)
  have tw2: "takeWhile (\<lambda>c. c \<noteq> CHR ''?'' \<and> c \<noteq> CHR ''#'') (CHR ''/'' # body) = CHR ''/'' # body"
    using nq by (intro takeWhile_eq_all_conv [THEN iffD2]) simp
  have dw2: "dropWhile (\<lambda>c. c \<noteq> CHR ''?'' \<and> c \<noteq> CHR ''#'') (CHR ''/'' # body) = []"
    using nq by (intro dropWhile_eq_Nil_conv [THEN iffD2]) simp
  show ?thesis
    unfolding parse_url_def pre Let_def
    using sw d v by (simp only: dr tw dw tw2 dw2) (simp add: split_path_encode [OF b])
qed

lemma split_path_segment:
  "list_all (\<lambda>c. \<not> path_separator c) i \<Longrightarrow> split_path (i @ CHR ''/'' # rest) = i # split_path rest"
  by (induction i) (auto simp: path_separator_def)

lemma split_path_last:
  "list_all (\<lambda>c. \<not> path_separator c) i \<Longrightarrow> split_path i = [i]"
  by (induction i) auto


lemma request_url_simps:
  "req_url (apiGet e argv path params) = parse_url (BASE e argv @ path)"
  "req_url (apiPost e argv path params) = parse_url (BASE e argv @ path)"
  "req_method (apiGet e argv path params) = GET"
  "req_method (apiPost e argv path params) = POST"
  by (simp_all add: apiGet_def apiPost_def)

lemma plain_literals:
  "list_all (\<lambda>c. \<not> path_encode_set c) ''health''"
  "list_all (\<lambda>c. \<not> path_encode_set c) ''sync''"
  "list_all (\<lambda>c. \<not> path_encode_set c) ''messages''"
  "list_all (\<lambda>c. \<not> path_encode_set c) ''messages/''"
  "list_all (\<lambda>c. \<not> path_encode_set c) ''/delete''"
  "list_all (\<lambda>c. \<not> path_encode_set c) ''/restore''"
  "list_all (\<lambda>c. \<not> path_encode_set c) ''trash''"
  "list_all (\<lambda>c. \<not> path_encode_set c) ''accounts''"
  "list_all (\<lambda>c. \<not> path_encode_set c) ''accounts/''"
  "list_all (\<lambda>c. \<not> path_encode_set c) ''/sync''"
  "list_all (\<lambda>c. \<not> path_encode_set c) ''/password''"
  "list_all (\<lambda>c. \<not> path_encode_set c) ''gmail/auth_url''"
  "list_all (\<lambda>c. \<not> path_encode_set c) ''gmail/sync''"
  by code_simp+

lemma plain_id_facts:
  assumes "plain_id i"
  shows "i \<noteq> []" "list_all (\<lambda>c. \<not> path_encode_set c) i"
    "list_all (\<lambda>c. \<not> path_separator c) i" "\<not> single_dot i" "\<not> double_dot i"
  using assms by (auto simp: plain_id_def list_all_iff)

lemma literal_path:
  assumes "port_number (ToString (resolvePort e argv))"
    and "list_all (\<lambda>c. \<not> path_encode_set c) body"
    and "path_segments [] (split_path body) = segs"
  shows "\<exists>u. parse_url (BASE e argv @ CHR ''/'' # body) = Some u \<and> url_path u = segs"
  using parse_url_plain [OF assms(1,2)] assms(3) by (simp add: BASE_def)

lemma id_path_last:
  assumes p: "port_number (ToString (resolvePort e argv))" and i: "plain_id i"
    and l: "list_all (\<lambda>c. \<not> path_encode_set c) (lit @ ''/'')"
    and s: "\<And>rest. split_path (lit @ CHR ''/'' # rest) = lit # split_path rest"
    and d: "\<not> single_dot lit" "\<not> double_dot lit"
  shows "\<exists>u. parse_url (BASE e argv @ CHR ''/'' # lit @ ''/'' @ i) = Some u \<and>
           url_path u = [lit, i]"
proof -
  note f = plain_id_facts [OF i]
  have b: "list_all (\<lambda>c. \<not> path_encode_set c) (lit @ ''/'' @ i)"
    using l f(2) by simp
  have "split_path (lit @ ''/'' @ i) = [lit, i]"
    using s [of i] split_path_last [OF f(3)] by simp
  then have "path_segments [] (split_path (lit @ ''/'' @ i)) = [lit, i]"
    using d f(4,5) by simp
  with parse_url_plain [OF p b] show ?thesis by (simp add: BASE_def)
qed

lemma id_path_middle:
  assumes p: "port_number (ToString (resolvePort e argv))" and i: "plain_id i"
    and l: "list_all (\<lambda>c. \<not> path_encode_set c) (lit @ ''/'')"
        "list_all (\<lambda>c. \<not> path_encode_set c) (CHR ''/'' # last_seg)"
    and s: "\<And>rest. split_path (lit @ CHR ''/'' # rest) = lit # split_path rest"
        "split_path last_seg = [last_seg]"
    and d: "\<not> single_dot lit" "\<not> double_dot lit" "\<not> single_dot last_seg" "\<not> double_dot last_seg"
  shows "\<exists>u. parse_url (BASE e argv @ CHR ''/'' # lit @ ''/'' @ i @ CHR ''/'' # last_seg) = Some u \<and>
           url_path u = [lit, i, last_seg]"
proof -
  note f = plain_id_facts [OF i]
  have b: "list_all (\<lambda>c. \<not> path_encode_set c) (lit @ ''/'' @ i @ CHR ''/'' # last_seg)"
    using l f(2) by simp
  have "split_path (lit @ ''/'' @ i @ CHR ''/'' # last_seg) = [lit, i, last_seg]"
    using s(1) [of "i @ CHR ''/'' # last_seg"] split_path_segment [OF f(3), of last_seg] s(2) by simp
  then have "path_segments [] (split_path (lit @ ''/'' @ i @ CHR ''/'' # last_seg)) = [lit, i, last_seg]"
    using d f(4,5) by simp
  with parse_url_plain [OF p b] show ?thesis by (simp add: BASE_def)
qed


lemma dots_literals:
  "\<not> single_dot ''messages''" "\<not> double_dot ''messages''"
  "\<not> single_dot ''accounts''" "\<not> double_dot ''accounts''"
  "\<not> single_dot ''delete''" "\<not> double_dot ''delete''"
  "\<not> single_dot ''restore''" "\<not> double_dot ''restore''"
  "\<not> single_dot ''sync''" "\<not> double_dot ''sync''"
  "\<not> single_dot ''password''" "\<not> double_dot ''password''"
  by (simp_all add: single_dot_def double_dot_def)

lemma split_literals:
  "split_path (''messages'' @ CHR ''/'' # rest) = ''messages'' # split_path rest"
  "split_path (''accounts'' @ CHR ''/'' # rest) = ''accounts'' # split_path rest"
  "split_path ''delete'' = [''delete'']" "split_path ''restore'' = [''restore'']"
  "split_path ''sync'' = [''sync'']" "split_path ''password'' = [''password'']"
  by (simp_all add: path_separator_def)

lemma plain_literals2:
  "list_all (\<lambda>c. \<not> path_encode_set c) (''messages'' @ ''/'')"
  "list_all (\<lambda>c. \<not> path_encode_set c) (''accounts'' @ ''/'')"
  "list_all (\<lambda>c. \<not> path_encode_set c) (CHR ''/'' # ''delete'')"
  "list_all (\<lambda>c. \<not> path_encode_set c) (CHR ''/'' # ''restore'')"
  "list_all (\<lambda>c. \<not> path_encode_set c) (CHR ''/'' # ''sync'')"
  "list_all (\<lambda>c. \<not> path_encode_set c) (CHR ''/'' # ''password'')"
  by code_simp+

lemma table_rows:
  "in_interface GET [''health'']" "in_interface POST [''sync'']" "in_interface GET [''messages'']"
  "in_interface GET [''trash'']" "in_interface GET [''accounts'']" "in_interface POST [''accounts'']"
  "in_interface GET [''gmail'', ''auth_url'']" "in_interface POST [''gmail'', ''sync'']"
  "i \<noteq> [] \<Longrightarrow> in_interface GET [''messages'', i]"
  "i \<noteq> [] \<Longrightarrow> in_interface POST [''messages'', i, ''delete'']"
  "i \<noteq> [] \<Longrightarrow> in_interface POST [''messages'', i, ''restore'']"
  "i \<noteq> [] \<Longrightarrow> in_interface DELETE [''accounts'', i]"
  "i \<noteq> [] \<Longrightarrow> in_interface PUT [''accounts'', i, ''password'']"
  "i \<noteq> [] \<Longrightarrow> in_interface POST [''accounts'', i, ''sync'']"
  by (simp_all add: in_interface_def interface_table_def)

lemma digit_char_code: "d < 10 \<Longrightarrow> (of_char (digit_char d) :: nat) = 48 + d"
  by (simp add: digit_char_def)

lemma digit_char_plain:
  assumes "d < 10"
  shows "\<not> path_encode_set (digit_char d)" "\<not> path_separator (digit_char d)"
    "digit_char d \<noteq> CHR ''.''" "digit_char d \<noteq> CHR ''%''"
proof -
  note c = digit_char_code [OF assms]
  show "\<not> path_encode_set (digit_char d)"
    using assms by (simp add: path_encode_set_def c)
  have "(of_char (CHR ''/'') :: nat) = 47" "(of_char (CHR 0x5C) :: nat) = 92"
    "(of_char (CHR ''.'') :: nat) = 46" "(of_char (CHR ''%'') :: nat) = 37"
    by simp_all
  with c assms show "\<not> path_separator (digit_char d)" "digit_char d \<noteq> CHR ''.''"
    "digit_char d \<noteq> CHR ''%''"
    by (auto simp: path_separator_def)
qed

lemma show_nat_plain:
  "show_nat n \<noteq> [] \<and>
   list_all (\<lambda>c. \<not> path_encode_set c \<and> \<not> path_separator c \<and> c \<noteq> CHR ''.'' \<and> c \<noteq> CHR ''%'')
     (show_nat n)"
proof (induction n rule: show_nat.induct)
  case (1 n)
  show ?case
  proof (cases "n < 10")
    case True
    then have "show_nat n = [digit_char n]"
      by (subst show_nat.simps) (simp del: show_nat.simps)
    with True show ?thesis using digit_char_plain [of n] by (simp del: show_nat.simps)
  next
    case False
    then have e: "show_nat n = show_nat (n div 10) @ [digit_char (n mod 10)]"
      by (subst show_nat.simps) (simp del: show_nat.simps)
    have "n mod 10 < 10" by simp
    with False "1.IH" show ?thesis
      using digit_char_plain [of "n mod 10"] unfolding e by (simp del: show_nat.simps)
  qed
qed

lemma no_dot_not_dot_segment:
  "s \<noteq> [] \<Longrightarrow> list_all (\<lambda>c. c \<noteq> CHR ''.'' \<and> c \<noteq> CHR ''%'') s \<Longrightarrow>
     \<not> single_dot s \<and> \<not> double_dot s"
  by (cases s) (auto simp: single_dot_def double_dot_def)

lemma plain_id_number: "plain_id (ToString (Num n))"
proof -
  have m: "\<not> path_encode_set CHR ''-''" "\<not> path_separator CHR ''-''"
    by (simp_all add: path_encode_set_def path_separator_def)
  have "show_int n \<noteq> [] \<and>
     list_all (\<lambda>c. \<not> path_encode_set c \<and> \<not> path_separator c \<and> c \<noteq> CHR ''.'' \<and> c \<noteq> CHR ''%'')
       (show_int n)"
    using show_nat_plain [of "nat (- n)"] show_nat_plain [of "nat n"] m
    by (simp add: show_int_def del: show_nat.simps)
  then show ?thesis
    using no_dot_not_dot_segment [of "show_int n"]
    by (auto simp: plain_id_def list_all_iff)
qed

lemma plain_paths_in_interface:
  "port_number (ToString (resolvePort e argv)) \<and> plain_ids c \<longrightarrow>
     (\<exists>u. req_url (emailApi e argv c) = Some u \<and>
          in_interface (req_method (emailApi e argv c)) (url_path u))"
proof
  assume a: "port_number (ToString (resolvePort e argv)) \<and> plain_ids c"
  then have p: "port_number (ToString (resolvePort e argv))" by simp
  note lit = literal_path [OF p]
  note last = id_path_last [OF p]
  note mid = id_path_middle [OF p]
  note seg = path_separator_def single_dot_def double_dot_def
  show "\<exists>u. req_url (emailApi e argv c) = Some u \<and>
          in_interface (req_method (emailApi e argv c)) (url_path u)"
  proof (cases c)
    case health
    have "\<exists>u. parse_url (BASE e argv @ CHR ''/'' # ''health'') = Some u \<and> url_path u = [''health'']"
      by (rule lit [OF plain_literals(1)]) (simp add: seg)
    with health show ?thesis by (auto simp: request_url_simps table_rows)
  next
    case (sync h u pw po)
    have "\<exists>u. parse_url (BASE e argv @ CHR ''/'' # ''sync'') = Some u \<and> url_path u = [''sync'']"
      by (rule lit [OF plain_literals(2)]) (simp add: seg)
    with sync show ?thesis by (auto simp: request_url_simps table_rows)
  next
    case (listMessages pg ps se)
    have "\<exists>u. parse_url (BASE e argv @ CHR ''/'' # ''messages'') = Some u \<and>
        url_path u = [''messages'']"
      by (rule lit [OF plain_literals(3)]) (simp add: seg)
    with listMessages show ?thesis by (auto simp: request_url_simps table_rows)
  next
    case (getMessage i)
    with a have i: "plain_id (ToString i)" by (simp add: plain_ids_def)
    from last [OF i plain_literals2(1) split_literals(1) dots_literals(1,2)]
      plain_id_facts(1) [OF i] getMessage
    show ?thesis by (auto simp: request_url_simps table_rows)
  next
    case (deleteMessage i)
    with a have i: "plain_id (ToString i)" by (simp add: plain_ids_def)
    from mid [OF i plain_literals2(1) plain_literals2(3) split_literals(1) split_literals(3)
        dots_literals(1,2) dots_literals(5,6)]
      plain_id_facts(1) [OF i] deleteMessage
    show ?thesis by (auto simp: request_url_simps table_rows)
  next
    case (restoreMessage i)
    with a have i: "plain_id (ToString i)" by (simp add: plain_ids_def)
    from mid [OF i plain_literals2(1) plain_literals2(4) split_literals(1) split_literals(4)
        dots_literals(1,2) dots_literals(7,8)]
      plain_id_facts(1) [OF i] restoreMessage
    show ?thesis by (auto simp: request_url_simps table_rows)
  next
    case (listTrash pg ps)
    have "\<exists>u. parse_url (BASE e argv @ CHR ''/'' # ''trash'') = Some u \<and> url_path u = [''trash'']"
      by (rule lit [OF plain_literals(7)]) (simp add: seg)
    with listTrash show ?thesis by (auto simp: request_url_simps table_rows)
  next
    case listAccounts
    have "\<exists>u. parse_url (BASE e argv @ CHR ''/'' # ''accounts'') = Some u \<and>
        url_path u = [''accounts'']"
      by (rule lit [OF plain_literals(8)]) (simp add: seg)
    with listAccounts show ?thesis by (auto simp: request_url_simps table_rows)
  next
    case (createAccount em ho po us pw)
    have "\<exists>u. parse_url (BASE e argv @ CHR ''/'' # ''accounts'') = Some u \<and>
        url_path u = [''accounts'']"
      by (rule lit [OF plain_literals(8)]) (simp add: seg)
    with createAccount show ?thesis by (auto simp: table_rows)
  next
    case (syncAccount i)
    with a have i: "plain_id (ToString i)" by (simp add: plain_ids_def)
    from mid [OF i plain_literals2(2) plain_literals2(5) split_literals(2) split_literals(5)
        dots_literals(3,4) dots_literals(9,10)]
      plain_id_facts(1) [OF i] syncAccount
    show ?thesis by (auto simp: request_url_simps table_rows)
  next
    case (rotatePassword i pw)
    with a have i: "plain_id (ToString i)" by (simp add: plain_ids_def)
    from mid [OF i plain_literals2(2) plain_literals2(6) split_literals(2) split_literals(6)
        dots_literals(3,4) dots_literals(11,12)]
      plain_id_facts(1) [OF i] rotatePassword
    show ?thesis by (auto simp: table_rows)
  next
    case gmailAuthUrl
    have "\<exists>u. parse_url (BASE e argv @ CHR ''/'' # ''gmail/auth_url'') = Some u \<and>
        url_path u = [''gmail'', ''auth_url'']"
      by (rule lit [OF plain_literals(12)]) (simp add: seg)
    with gmailAuthUrl show ?thesis by (auto simp: request_url_simps table_rows)
  next
    case (gmailSync i)
    have "\<exists>u. parse_url (BASE e argv @ CHR ''/'' # ''gmail/sync'') = Some u \<and>
        url_path u = [''gmail'', ''sync'']"
      by (rule lit [OF plain_literals(13)]) (simp add: seg)
    with gmailSync show ?thesis by (auto simp: request_url_simps table_rows)
  next
    case (deleteAccount i)
    with a have i: "plain_id (ToString i)" by (simp add: plain_ids_def)
    from last [OF i plain_literals2(2) split_literals(2) dots_literals(3,4)]
      plain_id_facts(1) [OF i] deleteAccount
    show ?thesis by (auto simp: table_rows)
  qed
qed

text \<open>
  C7, as the code has it. When the port the bridge resolved is a port number and every
  identifier an operation is called with stays one segment of the path as written (it
  is not empty, holds no \<open>/\<close>, backslash, \<open>?\<close>, \<open>#\<close>, space, control character or
  character that the parser encodes, and is no dot segment), the URL of the request
  parses and its method and path are those of a row of the interface table. Every
  identifier that is an integer is of that kind.
\<close>

theorem emailApi_paths_in_interface:
  "(port_number (ToString (resolvePort e argv)) \<and> plain_ids c \<longrightarrow>
      (\<exists>u. req_url (emailApi e argv c) = Some u \<and>
           in_interface (req_method (emailApi e argv c)) (url_path u))) \<and>
   plain_id (ToString (Num n))"
  using plain_paths_in_interface plain_id_number by blast

lemma port_8137: "port_number ''8137''"
  by (simp add: port_number_def ascii_digit_def digits_value_def)

lemma default_base: "BASE Map.empty [] = ''http://127.0.0.1:'' @ ''8137''"
  by (simp add: BASE_def resolvePort_def env_get_def)

theorem emailApi_paths_in_interface_witness:
  "port_number (ToString (resolvePort Map.empty [])) \<and> plain_ids (deleteMessage (Num 10)) \<and>
   req_url (emailApi Map.empty [] (deleteMessage (Num 10))) =
     Some \<lparr>url_port = Some 8137, url_path = [''messages'', ''10'', ''delete''], url_query = None\<rparr> \<and>
   in_interface (req_method (emailApi Map.empty [] (deleteMessage (Num 10))))
     [''messages'', ''10'', ''delete'']"
proof -
  have n: "show_int 10 = ''10''" by code_simp
  have r: "ToString (resolvePort Map.empty []) = ''8137''"
    by (simp add: resolvePort_def env_get_def)
  have p: "port_number (ToString (resolvePort Map.empty []))"
    unfolding r by (rule port_8137)
  have i: "plain_ids (deleteMessage (Num 10))"
    by (simp add: plain_ids_def n plain_id_def path_encode_set_def path_separator_def
        single_dot_def double_dot_def)
  have body: "list_all (\<lambda>c. \<not> path_encode_set c) ''messages/10/delete''"
    by (simp add: path_encode_set_def)
  have u: "req_url (emailApi Map.empty [] (deleteMessage (Num 10))) =
     Some \<lparr>url_port = Some 8137, url_path = [''messages'', ''10'', ''delete''], url_query = None\<rparr>"
    using parse_url_plain [OF port_8137 body]
    by (simp add: request_url_simps default_base n digits_value_def path_separator_def
        single_dot_def double_dot_def)
  from emailApi_paths_in_interface [of Map.empty "[]" "deleteMessage (Num 10)"] p i u
  have "in_interface (req_method (emailApi Map.empty [] (deleteMessage (Num 10))))
     [''messages'', ''10'', ''delete'']"
    by auto
  with p i u show ?thesis by blast
qed

text \<open>
  The claim as it is written fails where the text spliced into the URL changes its
  path: \<open>getMessage('../x')\<close> requests \<open>/x\<close>, and with \<open>ACTUAL_BACKEND_PORT\<close> set to
  \<open>8137/evil\<close> the operation \<open>health\<close> requests \<open>/evil/health\<close>. Neither path is in the
  table.
\<close>

theorem emailApi_path_counterexample:
  "req_url (emailApi Map.empty [] (getMessage (Str ''../x''))) =
     Some \<lparr>url_port = Some 8137, url_path = [''x''], url_query = None\<rparr> \<and>
   \<not> in_interface GET [''x''] \<and>
   req_url (emailApi (Map.empty(''ACTUAL_BACKEND_PORT'' \<mapsto> ''8137/evil'')) [] health) =
     Some \<lparr>url_port = Some 8137, url_path = [''evil'', ''health''], url_query = None\<rparr> \<and>
   \<not> in_interface GET [''evil'', ''health'']"
proof -
  have body1: "list_all (\<lambda>c. \<not> path_encode_set c) ''messages/../x''"
    by (simp add: path_encode_set_def)
  have body2: "list_all (\<lambda>c. \<not> path_encode_set c) ''evil/health''"
    by (simp add: path_encode_set_def)
  have base2: "BASE (Map.empty(''ACTUAL_BACKEND_PORT'' \<mapsto> ''8137/evil'')) [] =
      ''http://127.0.0.1:'' @ ''8137'' @ ''/evil''"
    by (simp add: BASE_def resolvePort_def env_get_def)
  have 1: "req_url (emailApi Map.empty [] (getMessage (Str ''../x''))) =
     Some \<lparr>url_port = Some 8137, url_path = [''x''], url_query = None\<rparr>"
    using parse_url_plain [OF port_8137 body1]
    by (simp add: request_url_simps default_base digits_value_def path_separator_def
        single_dot_def double_dot_def)
  have 2: "req_url (emailApi (Map.empty(''ACTUAL_BACKEND_PORT'' \<mapsto> ''8137/evil'')) [] health) =
     Some \<lparr>url_port = Some 8137, url_path = [''evil'', ''health''], url_query = None\<rparr>"
    using parse_url_plain [OF port_8137 body2]
    by (simp add: request_url_simps base2 digits_value_def path_separator_def
        single_dot_def double_dot_def)
  have 3: "\<not> in_interface GET [''x'']" "\<not> in_interface GET [''evil'', ''health'']"
    by (simp_all add: in_interface_def interface_table_def)
  from 1 2 3 show ?thesis by blast
qed

section \<open>The renderer: escaping\<close>

lemma escape_char_cases:
  "escape_char c \<in> {''&amp;'', ''&lt;'', ''&gt;'', ''&quot;'', ''&#39;''} \<or>
   (c \<notin> escape_class \<and> escape_char c = [c])"
  by (auto simp: escape_char_def escape_class_def escape_table_def)

lemma escape_char_no_specials:
  "set (escape_char c) \<inter> {CHR ''<'', CHR ''>'', CHR 0x22, CHR 0x27} = {}"
  using escape_char_cases [of c] by (auto simp: escape_class_def)

lemma escapeHtml_no_specials:
  "set (escapeHtml s) \<inter> {CHR ''<'', CHR ''>'', CHR 0x22, CHR 0x27} = {}"
  using escape_char_no_specials by (induction s) (auto simp: escapeHtml_def)

lemma escapeHtml_Cons: "escapeHtml (c # s) = escape_char c @ escapeHtml s"
  by (simp add: escapeHtml_def)

lemma escapeHtml_append: "escapeHtml (xs @ ys) = escapeHtml xs @ escapeHtml ys"
  by (simp add: escapeHtml_def)

lemma escape_char_amp:
  assumes "i < length (escape_char c)" and "escape_char c ! i = CHR ''&''"
  shows "i = 0 \<and> escape_char c \<in> entities"
proof -
  consider "escape_char c = ''&amp;''" | "escape_char c = ''&lt;''" | "escape_char c = ''&gt;''"
    | "escape_char c = ''&quot;''" | "escape_char c = ''&#39;''"
    | "c \<notin> escape_class" "escape_char c = [c]"
    using escape_char_cases [of c] by auto
  then show ?thesis
  proof cases
    case 6
    with assms show ?thesis by (auto simp: escape_class_def)
  qed (use assms in \<open>auto simp: entities_def nth_Cons' split: if_splits\<close>)
qed

lemma escapeHtml_amp:
  "i < length (escapeHtml s) \<Longrightarrow> escapeHtml s ! i = CHR ''&'' \<Longrightarrow>
     \<exists>e\<in>entities. prefix e (drop i (escapeHtml s))"
proof (induction s arbitrary: i)
  case Nil
  then show ?case by (simp add: escapeHtml_def)
next
  case (Cons c s)
  show ?case
  proof (cases "i < length (escape_char c)")
    case True
    with Cons.prems have "escape_char c ! i = CHR ''&''"
      by (simp add: escapeHtml_Cons nth_append)
    with True have "i = 0" "escape_char c \<in> entities"
      using escape_char_amp by blast+
    then have "prefix (escape_char c) (drop i (escapeHtml (c # s)))"
      by (simp add: escapeHtml_Cons)
    with \<open>escape_char c \<in> entities\<close> show ?thesis by blast
  next
    case False
    define j where "j = i - length (escape_char c)"
    from False Cons.prems have "j < length (escapeHtml s)" "escapeHtml s ! j = CHR ''&''"
      by (auto simp: j_def escapeHtml_Cons nth_append)
    then obtain e where "e \<in> entities" "prefix e (drop j (escapeHtml s))"
      using Cons.IH by blast
    moreover from False have "drop i (escapeHtml (c # s)) = drop j (escapeHtml s)"
      by (simp add: j_def escapeHtml_Cons)
    ultimately show ?thesis by auto
  qed
qed

text \<open>
  C9: for every string \<open>s\<close>, \<open>escapeHtml s\<close> contains none of the characters \<open><\<close>,
  \<open>>\<close>, the double quote and the single quote; at every position of the output that
  holds \<open>&\<close>, one of the five entities starts; and every character of \<open>s\<close> outside the
  class stays where it is: the output is the escaped text before it, the character
  itself, and the escaped text after it.
\<close>

theorem escapeHtml_output:
  "CHR ''<'' \<notin> set (escapeHtml s) \<and> CHR ''>'' \<notin> set (escapeHtml s) \<and>
   CHR 0x22 \<notin> set (escapeHtml s) \<and> CHR 0x27 \<notin> set (escapeHtml s) \<and>
   (\<forall>i < length (escapeHtml s). escapeHtml s ! i = CHR ''&'' \<longrightarrow>
      (\<exists>e\<in>entities. prefix e (drop i (escapeHtml s)))) \<and>
   (\<forall>xs c ys. s = xs @ c # ys \<and> c \<notin> escape_class \<longrightarrow>
      escapeHtml s = escapeHtml xs @ c # escapeHtml ys)"
proof -
  have "\<forall>xs c ys. s = xs @ c # ys \<and> c \<notin> escape_class \<longrightarrow>
      escapeHtml s = escapeHtml xs @ c # escapeHtml ys"
    by (auto simp: escapeHtml_append escapeHtml_Cons escape_char_def)
  with escapeHtml_no_specials [of s] escapeHtml_amp [of _ s] show ?thesis
    by auto
qed

theorem escapeHtml_output_witness:
  "escapeHtml ''a<b & c>'' = ''a&lt;b &amp; c&gt;'' \<and>
   CHR ''<'' \<notin> set (escapeHtml ''a<b & c>'') \<and>
   (\<exists>e\<in>entities. prefix e (drop 1 (escapeHtml ''a<b & c>''))) \<and>
   escapeHtml ''a<b & c>'' = escapeHtml ''a<'' @ CHR ''b'' # escapeHtml '' & c>''"
proof -
  have e: "escapeHtml ''a<b & c>'' = ''a&lt;b &amp; c&gt;''"
    by (simp add: escapeHtml_def escape_char_def escape_class_def escape_table_def)
  note t = escapeHtml_output [of "''a<b & c>''"]
  from t have amp: "\<And>i. i < length (escapeHtml ''a<b & c>'') \<Longrightarrow>
      escapeHtml ''a<b & c>'' ! i = CHR ''&'' \<Longrightarrow>
      \<exists>e\<in>entities. prefix e (drop i (escapeHtml ''a<b & c>''))"
    by blast
  from t have keep: "\<And>xs c ys. ''a<b & c>'' = xs @ c # ys \<Longrightarrow> c \<notin> escape_class \<Longrightarrow>
      escapeHtml ''a<b & c>'' = escapeHtml xs @ c # escapeHtml ys"
    by blast
  from t have "CHR ''<'' \<notin> set (escapeHtml ''a<b & c>'')" by blast
  moreover have "\<exists>e\<in>entities. prefix e (drop 1 (escapeHtml ''a<b & c>''))"
    by (rule amp) (simp_all add: e)
  moreover have "escapeHtml ''a<b & c>'' = escapeHtml ''a<'' @ CHR ''b'' # escapeHtml '' & c>''"
    by (rule keep) (simp_all add: escape_class_def)
  ultimately show ?thesis using e by blast
qed

section \<open>The renderer: highlighting adds only its own tags\<close>

lemma marked_refl: "marked s s"
  by (induction s) (auto intro: marked.intros)

lemma marked_append: "marked a x \<Longrightarrow> marked b y \<Longrightarrow> marked (a @ b) (x @ y)"
proof (induction rule: marked.induct)
  case Done
  then show ?case by simp
next
  case (Keep s out c)
  then show ?case by (simp add: marked.Keep)
next
  case (Open s out)
  then show ?case using marked.Open [of "s @ b" "out @ y"] by simp
next
  case (Close s out)
  then show ?case using marked.Close [of "s @ b" "out @ y"] by simp
qed

lemma marked_wrap: "marked rest out \<Longrightarrow> marked (m @ rest) (''<mark>'' @ m @ ''</mark>'' @ out)"
proof -
  assume r: "marked rest out"
  have "marked rest (''</mark>'' @ out)" by (rule marked.Close [OF r])
  then have "marked (m @ rest) (m @ ''</mark>'' @ out)"
    using marked_append [OF marked_refl] by blast
  then show ?thesis by (rule marked.Open)
qed

lemma marked_mark_all: "marked s (mark_all t s)"
proof (induction t s rule: mark_all.induct)
  case (1 t)
  have "marked [] (''<mark>'' @ ''</mark>'' @ [])"
    by (intro marked.Open marked.Close marked.Done)
  then show ?case by (simp add: marked.Done)
next
  case (2 t c cs)
  show ?case
  proof (cases "t = []")
    case True
    with 2 have "marked cs (mark_all t cs)" by simp
    then have "marked (c # cs) (''<mark>'' @ ''</mark>'' @ c # mark_all t cs)"
      by (intro marked.Open marked.Close marked.Keep)
    with True show ?thesis by simp
  next
    case False
    show ?thesis
    proof (cases "ci_prefix t (c # cs)")
      case True
      with False 2 have "marked (drop (length t) (c # cs)) (mark_all t (drop (length t) (c # cs)))"
        by simp
      then have "marked (take (length t) (c # cs) @ drop (length t) (c # cs))
         (''<mark>'' @ take (length t) (c # cs) @ ''</mark>'' @ mark_all t (drop (length t) (c # cs)))"
        by (rule marked_wrap)
      then have "marked (c # cs)
         (''<mark>'' @ take (length t) (c # cs) @ ''</mark>'' @ mark_all t (drop (length t) (c # cs)))"
        by (simp only: append_take_drop_id)
      with False True show ?thesis by (simp del: take_Suc_Cons drop_Suc_Cons)
    next
      case np: False
      with False 2 have "marked cs (mark_all t cs)" by simp
      then have "marked (c # cs) (c # mark_all t cs)" by (rule marked.Keep)
      with False np show ?thesis by simp
    qed
  qed
qed

lemma marked_fold: "marked\<^sup>*\<^sup>* e (foldl (\<lambda>out t. mark_all t out) e tokens)"
proof (induction tokens arbitrary: e)
  case Nil
  then show ?case by simp
next
  case (Cons t tokens)
  have "marked e (mark_all t e)" by (rule marked_mark_all)
  with Cons [of "mark_all t e"] show ?case
    by (simp add: converse_rtranclp_into_rtranclp)
qed

lemma marked_highlight: "marked\<^sup>*\<^sup>* (escapeHtml str) (highlight str tokens)"
  using marked_fold by (simp add: highlight_def escapeHtml_def)

lemma marked_chars: "marked s out \<Longrightarrow> set out \<subseteq> set s \<union> set ''</mark>''"
  by (induction rule: marked.induct) auto

lemma marked_rtrancl_chars: "marked\<^sup>*\<^sup>* s out \<Longrightarrow> set out \<subseteq> set s \<union> set ''</mark>''"
proof (induction rule: rtranclp_induct)
  case base
  then show ?case by auto
next
  case (step y z)
  then show ?case using marked_chars [of y z] by auto
qed

lemma highlight_no_quotes:
  "CHR 0x22 \<notin> set (highlight str tokens) \<and> CHR 0x27 \<notin> set (highlight str tokens)"
  using marked_rtrancl_chars [OF marked_highlight, of str tokens] escapeHtml_no_specials [of str]
  by auto

section \<open>The renderer: what reaches the document\<close>

text \<open>
  C2, as the code has it. In \<open>renderList\<close> the subject, the sender and the body
  snippet of an entry are each passed through \<open>escapeHtml\<close> before \<open>highlight\<close> adds
  its tags: each of the three inserted texts is the escaped text with whole
  \<open><mark>\<close> and \<open></mark>\<close> tags put in (once per search token), and holds no quote
  character; the entry's \<open>innerHTML\<close> is the template around them and the escaped date.
  In \<open>showDetail\<close> the subject and the meta line are written to \<open>textContent\<close>, which
  is not parsed as markup, and are not escaped. The body is escaped only when
  \<open>body_html_sanitized\<close> is empty or \<open>null\<close>; otherwise the backend's
  \<open>body_html_sanitized\<close> is assigned to \<open>innerHTML\<close> as it came.
\<close>

theorem renderer_escaping:
  "marked\<^sup>*\<^sup>* (escapeHtml (or_else (subject m) ''(No Subject)'')) (subjectHtml tokens m) \<and>
   marked\<^sup>*\<^sup>* (escapeHtml (or_else (from_addr m) [])) (fromAddrHtml tokens m) \<and>
   marked\<^sup>*\<^sup>* (escapeHtml (makeSnippet (or_else (body_plain m) []) tokens))
     (bodySnippetHtml tokens m) \<and>
   (\<forall>h \<in> {subjectHtml tokens m, fromAddrHtml tokens m, bodySnippetHtml tokens m}.
      CHR 0x22 \<notin> set h \<and> CHR 0x27 \<notin> set h) \<and>
   item_html (render_item ld tokens m) =
     item_template (subjectHtml tokens m) (fromAddrHtml tokens m) (bodySnippetHtml tokens m)
       (escapeHtml (formatDate ld (date_received m))) \<and>
   detailSubject (showDetail_settled ld (Detail msg) s) =
     TextContent (or_else (subject msg) ''(No Subject)'') \<and>
   (\<exists>t. detailMeta (showDetail_settled ld (Detail msg) s) = TextContent t) \<and>
   detailBody (showDetail_settled ld (Detail msg) s) =
     InnerHTML (if or_else (body_html_sanitized msg) [] = []
                then ''<pre>'' @ escapeHtml (or_else (body_plain msg) []) @ ''</pre>''
                else or_else (body_html_sanitized msg) [])"
proof -
  have "detailBody (showDetail_settled ld (Detail msg) s) =
     InnerHTML (if or_else (body_html_sanitized msg) [] = []
                then ''<pre>'' @ escapeHtml (or_else (body_plain msg) []) @ ''</pre>''
                else or_else (body_html_sanitized msg) [])"
    by (cases "body_html_sanitized msg") (simp_all add: showDetail_settled_def)
  moreover have "detailSubject (showDetail_settled ld (Detail msg) s) =
     TextContent (or_else (subject msg) ''(No Subject)'')"
    by (simp add: showDetail_settled_def)
  moreover have "\<exists>t. detailMeta (showDetail_settled ld (Detail msg) s) = TextContent t"
    by (simp add: showDetail_settled_def)
  moreover have "item_html (render_item ld tokens m) =
     item_template (subjectHtml tokens m) (fromAddrHtml tokens m) (bodySnippetHtml tokens m)
       (escapeHtml (formatDate ld (date_received m)))"
    by (simp add: render_item_def)
  ultimately show ?thesis
    using marked_highlight highlight_no_quotes
    by (simp add: subjectHtml_def fromAddrHtml_def bodySnippetHtml_def)
qed

theorem renderer_escaping_witness:
  "subjectHtml [''hi''] (text_message ''<i>Re: Hi'' ''x'') = ''&lt;i&gt;Re: <mark>Hi</mark>'' \<and>
   marked\<^sup>*\<^sup>* (escapeHtml ''<i>Re: Hi'') (subjectHtml [''hi''] (text_message ''<i>Re: Hi'' ''x'')) \<and>
   CHR 0x22 \<notin> set (subjectHtml [''hi''] (text_message ''<i>Re: Hi'' ''x'')) \<and>
   detailBody (showDetail_settled no_dates (Detail (text_message ''<i>Re: Hi'' ''1 < 2'')) empty_doc)
     = InnerHTML ''<pre>1 &lt; 2</pre>''"
proof -
  note t = renderer_escaping [of "text_message ''<i>Re: Hi'' ''x''" "[''hi'']" no_dates
      "text_message ''<i>Re: Hi'' ''1 < 2''" empty_doc]
  have ex1: "subjectHtml [''hi''] (text_message ''<i>Re: Hi'' ''x'')
      = ''&lt;i&gt;Re: <mark>Hi</mark>''"
    by code_simp
  have b: "escapeHtml ''1 < 2'' = ''1 &lt; 2''"
    by (simp add: escapeHtml_def escape_char_def escape_class_def escape_table_def)
  from t have "marked\<^sup>*\<^sup>* (escapeHtml ''<i>Re: Hi'')
      (subjectHtml [''hi''] (text_message ''<i>Re: Hi'' ''x''))"
    by (simp add: text_message_def)
  moreover from t have "CHR 0x22 \<notin> set (subjectHtml [''hi''] (text_message ''<i>Re: Hi'' ''x''))"
    by blast
  moreover from t b have "detailBody (showDetail_settled no_dates
      (Detail (text_message ''<i>Re: Hi'' ''1 < 2'')) empty_doc) = InnerHTML ''<pre>1 &lt; 2</pre>''"
    by (simp add: text_message_def)
  ultimately show ?thesis using ex1 by blast
qed

text \<open>
  The claim as it is written fails on the detail body: a message whose
  \<open>body_html_sanitized\<close> holds markup reaches \<open>innerHTML\<close> unchanged, unescaped.
\<close>

theorem showDetail_body_counterexample:
  "detailBody (showDetail_settled no_dates
      (Detail ((text_message ''s'' ''b'')\<lparr>body_html_sanitized := Some ''<img src=x onerror=alert(1)>''\<rparr>))
      empty_doc)
     = InnerHTML ''<img src=x onerror=alert(1)>'' \<and>
   CHR ''<'' \<in> set ''<img src=x onerror=alert(1)>'' \<and>
   escapeHtml ''<img src=x onerror=alert(1)>'' \<noteq> ''<img src=x onerror=alert(1)>''"
  by (simp add: showDetail_settled_def text_message_def escapeHtml_def escape_char_def
      escape_class_def escape_table_def)

section \<open>The renderer: pagination\<close>

lemma length_page_of: "length (page_of xs p n) = min n (length xs - (p - 1) * n)"
  by (simp add: page_of_def)

lemma nextDisabled_settled:
  "nextDisabled (loadMessages_settled ld (Data (Some msgs)) s) = (length msgs < PAGE_SIZE)"
  by (simp add: loadMessages_settled_def updatePaginationControls_def Let_def)

text \<open>
  C3: \<open>PAGE_SIZE\<close> is 50, and \<open>updatePaginationControls\<close> disables the Next button
  exactly when the returned count is less than \<open>PAGE_SIZE\<close>; so does a load that
  settles with a list of messages. For a page of the backend's listing with page size
  \<open>PAGE_SIZE\<close>, Next stays enabled (a next page is inferred) if and only if the page
  holds exactly \<open>PAGE_SIZE\<close> messages. With 120 messages, pages 1 and 2 hold 50 each,
  page 3 holds 20, and after page 3 the Next button is disabled.
\<close>

theorem next_page_inferred:
  "PAGE_SIZE = 50 \<and>
   nextDisabled (updatePaginationControls count s) = (count < PAGE_SIZE) \<and>
   nextDisabled (loadMessages_settled ld (Data (Some msgs)) s) = (length msgs < PAGE_SIZE) \<and>
   (\<not> nextDisabled (loadMessages_settled ld (Data (Some (page_of all p PAGE_SIZE))) s))
      = (length (page_of all p PAGE_SIZE) = PAGE_SIZE) \<and>
   (length all = 120 \<longrightarrow>
      length (page_of all 1 PAGE_SIZE) = 50 \<and> length (page_of all 2 PAGE_SIZE) = 50 \<and>
      length (page_of all 3 PAGE_SIZE) = 20 \<and>
      nextDisabled (loadMessages_settled ld (Data (Some (page_of all 3 PAGE_SIZE))) s))"
proof -
  have "length (page_of all p PAGE_SIZE) \<le> PAGE_SIZE"
    by (simp add: length_page_of)
  then show ?thesis
    unfolding nextDisabled_settled
    by (auto simp: updatePaginationControls_def length_page_of PAGE_SIZE_def)
qed

theorem next_page_inferred_witness:
  "length (replicate 120 (text_message ''s'' ''b'')) = 120 \<and>
   length (page_of (replicate 120 (text_message ''s'' ''b'')) 3 PAGE_SIZE) = 20 \<and>
   nextDisabled (loadMessages_settled no_dates
     (Data (Some (page_of (replicate 120 (text_message ''s'' ''b'')) 3 PAGE_SIZE))) empty_doc)"
proof -
  have len: "length (replicate 120 (text_message ''s'' ''b'')) = 120" by simp
  note t = next_page_inferred [where all = "replicate 120 (text_message ''s'' ''b'')"
      and ld = no_dates and s = empty_doc and count = 0 and msgs = "[]" and p = 3]
  from t len have "length (page_of (replicate 120 (text_message ''s'' ''b'')) 3 PAGE_SIZE) = 20 \<and>
     nextDisabled (loadMessages_settled no_dates
       (Data (Some (page_of (replicate 120 (text_message ''s'' ''b'')) 3 PAGE_SIZE))) empty_doc)"
    by blast
  with len show ?thesis by blast
qed

lemma currentPage_loadMessages [simp]: "currentPage (loadMessages s) = currentPage s"
  by (simp add: loadMessages_def)

lemma currentPage_renderList [simp]: "currentPage (renderList ld ms s) = currentPage s"
  by (simp add: renderList_def)

lemma currentPage_showDetail [simp]: "currentPage (showDetail i s) = currentPage s"
  by (simp add: showDetail_def)

lemma currentPage_settled [simp]: "currentPage (loadMessages_settled ld r s) = currentPage s"
  by (cases r) (simp_all add: loadMessages_settled_def updatePaginationControls_def Let_def)

lemma step_keeps_page_positive: "1 \<le> currentPage s \<Longrightarrow> 1 \<le> currentPage (step ld s ev)"
  by (cases ev)
     (auto simp: doSync_def doSearch_def clearSearch_def trashToggle_onchange_def
        prevPageBtn_onclick_def nextPageBtn_onclick_def doDelete_def doRestore_def
        showDetail_settled_def doDelete_settled_def doRestore_settled_def doSync_settled_def
        Let_def split: detail_response.splits option.splits)

lemma foldl_keeps_page_positive:
  "1 \<le> currentPage s \<Longrightarrow> 1 \<le> currentPage (foldl (step ld) s evs)"
  by (induction evs arbitrary: s) (simp_all add: step_keeps_page_positive)

lemma currentPage_initial: "currentPage (initial doc) = 1"
  by (simp add: initial_def)

text \<open>
  C8, as the code has it. Under every sequence of events (the user's actions and the
  settling of calls, in any order) \<open>currentPage\<close> is at least 1.
  \<open>updatePaginationControls\<close> disables the Prev button exactly when \<open>currentPage\<close> is
  1, and so the two agree right after every load that settles with data. A search, a
  cleared search and a trash toggle each set \<open>currentPage\<close> to 1.
\<close>

theorem currentPage_positive:
  "1 \<le> currentPage (run ld doc evs) \<and>
   prevDisabled (updatePaginationControls count s) = (currentPage s = 1) \<and>
   prevDisabled (step ld s (MessagesSettled (Data ms)))
     = (currentPage (step ld s (MessagesSettled (Data ms))) = 1) \<and>
   currentPage (step ld s (SearchClick q)) = 1 \<and>
   currentPage (step ld s ClearSearchClick) = 1 \<and>
   currentPage (step ld s (TrashToggle b)) = 1"
proof -
  have "1 \<le> currentPage (run ld doc evs)"
    unfolding run_def by (rule foldl_keeps_page_positive) (simp add: currentPage_initial)
  moreover have "prevDisabled (step ld s (MessagesSettled (Data ms)))
     = (currentPage (step ld s (MessagesSettled (Data ms))) = 1)"
    by (simp add: loadMessages_settled_def updatePaginationControls_def Let_def)
  ultimately show ?thesis
    by (simp add: updatePaginationControls_def doSearch_def clearSearch_def trashToggle_onchange_def)
qed

theorem currentPage_positive_witness:
  "1 \<le> currentPage (run no_dates empty_doc [NextClick, NextClick, PrevClick, SearchClick ''x'']) \<and>
   currentPage (step no_dates empty_doc (TrashToggle True)) = 1"
  using currentPage_positive [of no_dates empty_doc
      "[NextClick, NextClick, PrevClick, SearchClick ''x'']" 0 empty_doc None "''x''" True]
  by blast

text \<open>
  The claim as it is written fails between a change of page and the next successful
  load: the page has loaded 50 messages, the user clicks Next, and the call is
  rejected. \<open>currentPage\<close> is 2 and the Prev button is still disabled, since only a
  load that settles with data updates the buttons.
\<close>

theorem prev_button_stale_counterexample:
  "currentPage (run no_dates empty_doc
      [MessagesSettled (Data (Some (replicate 50 (text_message ''s'' ''b'')))),
       NextClick, MessagesSettled (Rejected None)]) = 2 \<and>
   prevDisabled (run no_dates empty_doc
      [MessagesSettled (Data (Some (replicate 50 (text_message ''s'' ''b'')))),
       NextClick, MessagesSettled (Rejected None)])"
  by (simp add: run_def initial_def empty_doc_def loadMessages_def loadMessages_settled_def
      updatePaginationControls_def renderList_def nextPageBtn_onclick_def PAGE_SIZE_def Let_def)


section \<open>The backend: deduplication\<close>

lemma set_map_filter_iff: "y \<in> set (List.map_filter f xs) \<longleftrightarrow> (\<exists>x\<in>set xs. f x = Some y)"
  by (induction xs) (auto split: option.splits)

lemma key_exists_iff: "key_exists st acct k \<longleftrightarrow> (acct, k) \<in> set (stored_keys st)"
  by (auto simp: key_exists_def stored_keys_def list_ex_iff set_map_filter_iff)

lemma stored_keys_insert:
  "insert_message st acct key raw s = Inr st' \<Longrightarrow>
     stored_keys st' = stored_keys st @ (case key of Some k \<Rightarrow> [(acct, k)] | None \<Rightarrow> [])"
  by (auto simp: insert_message_def stored_keys_def map_filter_def split: if_splits option.splits)

lemma insert_message_fresh:
  "insert_message st acct (Some k) raw s = Inr st' \<Longrightarrow> (acct, k) \<notin> set (stored_keys st)"
  by (auto simp: insert_message_def key_exists_iff split: if_splits)

lemma insert_message_new_key:
  "\<not> key_exists st acct k \<Longrightarrow> \<exists>st'. insert_message st acct (Some k) raw s = Inr st'"
  by (simp add: insert_message_def)

lemma sync_message_keys:
  "\<exists>ks. stored_keys (fst (sync_message resolve san acct (st, sm) raw)) = stored_keys st @ ks"
  by (auto simp: sync_message_def Let_def stored_keys_insert split: option.splits sum.splits)

lemma sync_message_distinct:
  "distinct (stored_keys st) \<Longrightarrow>
     distinct (stored_keys (fst (sync_message resolve san acct (st, sm) raw)))"
  by (auto simp: sync_message_def Let_def stored_keys_insert key_exists_iff
      dest: insert_message_fresh split: option.splits sum.splits)

lemma sync_message_has_key:
  "resolve acct raw = Some k \<Longrightarrow>
     (acct, k) \<in> set (stored_keys (fst (sync_message resolve san acct (st, sm) raw)))"
proof (cases "key_exists st acct k")
  case True
  moreover assume "resolve acct raw = Some k"
  ultimately show ?thesis
    by (simp add: sync_message_def Let_def key_exists_iff)
next
  case False
  then obtain st' where i: "insert_message st acct (Some k) raw (san (raw_body_html raw)) = Inr st'"
    using insert_message_new_key by blast
  moreover assume "resolve acct raw = Some k"
  ultimately show ?thesis
    using False stored_keys_insert [OF i] by (simp add: sync_message_def Let_def)
qed

lemma sync_fold_distinct:
  "distinct (stored_keys (fst acc)) \<Longrightarrow>
     distinct (stored_keys (fst (foldl (sync_message resolve san acct) acc raws)))"
proof (induction raws arbitrary: acc)
  case Nil
  then show ?case by simp
next
  case (Cons raw raws)
  obtain st sm where acc: "acc = (st, sm)" by (cases acc)
  with Cons.prems have "distinct (stored_keys (fst (sync_message resolve san acct acc raw)))"
    using sync_message_distinct by simp
  then show ?case using Cons.IH by simp
qed

lemma sync_fold_mono:
  "x \<in> set (stored_keys (fst acc)) \<Longrightarrow>
     x \<in> set (stored_keys (fst (foldl (sync_message resolve san acct) acc raws)))"
proof (induction raws arbitrary: acc)
  case Nil
  then show ?case by simp
next
  case (Cons raw raws)
  obtain st sm where acc: "acc = (st, sm)" by (cases acc)
  obtain ks where "stored_keys (fst (sync_message resolve san acct (st, sm) raw))
      = stored_keys st @ ks"
    using sync_message_keys by blast
  with Cons.prems acc have "x \<in> set (stored_keys (fst (sync_message resolve san acct acc raw)))"
    by simp
  then show ?case using Cons.IH by simp
qed

lemma sync_fold_has_keys:
  "raw \<in> set raws \<Longrightarrow> resolve acct raw = Some k \<Longrightarrow>
     (acct, k) \<in> set (stored_keys (fst (foldl (sync_message resolve san acct) acc raws)))"
proof (induction raws arbitrary: acc)
  case Nil
  then show ?case by simp
next
  case (Cons r raws)
  obtain st sm where acc: "acc = (st, sm)" by (cases acc)
  show ?case
  proof (cases "raw = r")
    case True
    with Cons.prems acc
    have "(acct, k) \<in> set (stored_keys (fst (sync_message resolve san acct acc r)))"
      using sync_message_has_key by simp
    then show ?thesis using sync_fold_mono by simp
  next
    case False
    with Cons.prems have "raw \<in> set raws" by simp
    then show ?thesis using Cons.IH Cons.prems(2) by simp
  qed
qed

lemma sync_fold_all_skipped:
  "\<forall>raw\<in>set raws. \<exists>k. resolve acct raw = Some k \<and> (acct, k) \<in> set (stored_keys st) \<Longrightarrow>
     foldl (sync_message resolve san acct) (st, sm) raws =
       (st, sm\<lparr>fetched := fetched sm + length raws, skipped := skipped sm + length raws\<rparr>)"
proof (induction raws arbitrary: sm)
  case Nil
  then show ?case by simp
next
  case (Cons r raws)
  then obtain k where k: "resolve acct r = Some k" "(acct, k) \<in> set (stored_keys st)"
    by auto
  then have "sync_message resolve san acct (st, sm) r
      = (st, sm\<lparr>fetched := fetched sm + 1, skipped := skipped sm + 1\<rparr>)"
    by (simp add: sync_message_def Let_def key_exists_iff)
  moreover from Cons.prems
  have "\<forall>raw\<in>set raws. \<exists>k. resolve acct raw = Some k \<and> (acct, k) \<in> set (stored_keys st)"
    by simp
  ultimately show ?case using Cons.IH by simp
qed

lemma distinct_keys_same_row:
  "distinct (List.map_filter f xs) \<Longrightarrow> x \<in> set xs \<Longrightarrow> y \<in> set xs \<Longrightarrow>
     f x = Some k \<Longrightarrow> f y = Some k \<Longrightarrow> x = y"
proof (induction xs)
  case Nil
  then show ?case by simp
next
  case (Cons a xs)
  then show ?case
    by (cases "f a") (auto simp: set_map_filter_iff)
qed

lemma stored_keys_set_hidden:
  "stored_keys (st\<lparr>messages := set_hidden i b (messages st), audit_log := l\<rparr>) = stored_keys st"
proof -
  have "List.map_filter (\<lambda>m. map_option (\<lambda>k. (m_account m, k)) (m_external_id m))
          (set_hidden i b ms)
      = List.map_filter (\<lambda>m. map_option (\<lambda>k. (m_account m, k)) (m_external_id m)) ms" for ms
    by (induction ms) (auto simp: set_hidden_def split: option.splits)
  then show ?thesis by (simp add: stored_keys_def)
qed

lemma stored_keys_hide: "hide t i st = Inr st' \<Longrightarrow> stored_keys st' = stored_keys st"
  by (auto simp: hide_def stored_keys_set_hidden split: option.splits if_splits)

lemma stored_keys_restore: "restore t i st = Inr st' \<Longrightarrow> stored_keys st' = stored_keys st"
  by (auto simp: restore_def stored_keys_set_hidden split: option.splits if_splits)

text \<open>
  C1, on the model of the specification. The keys of the stored rows, each with its
  account, are pairwise distinct in the empty store, and a sync keeps them so: any two
  stored messages of one account with the same key are the same row. When the Dedup Key
  Resolver derives a key for every message of the mailbox, a second sync over the
  unchanged mailbox changes nothing in the store, inserts no row and skips every message.
  \<open>hide\<close> and \<open>restore\<close> leave the keys as they are.
\<close>

theorem sync_dedup:
  "distinct (stored_keys empty_store) \<and>
   (distinct (stored_keys st) \<longrightarrow>
      distinct (stored_keys (fst (sync_account resolve san acct st raws))) \<and>
      (\<forall>m1\<in>set (messages (fst (sync_account resolve san acct st raws))).
       \<forall>m2\<in>set (messages (fst (sync_account resolve san acct st raws))).
         m_account m1 = m_account m2 \<and> m_external_id m1 = m_external_id m2 \<and>
         m_external_id m1 \<noteq> None \<longrightarrow> m1 = m2)) \<and>
   ((\<forall>raw\<in>set raws. resolve acct raw \<noteq> None) \<longrightarrow>
      sync_account resolve san acct
        (fst (sync_account resolve san acct st raws)) raws =
      (fst (sync_account resolve san acct st raws),
       \<lparr>fetched = length raws, inserted = 0, skipped = length raws\<rparr>)) \<and>
   (hide t i st = Inr st' \<longrightarrow> stored_keys st' = stored_keys st) \<and>
   (restore t i st = Inr st' \<longrightarrow> stored_keys st' = stored_keys st)"
proof (intro conjI impI)
  show "distinct (stored_keys empty_store)"
    by (simp add: stored_keys_def empty_store_def map_filter_simps)
next
  assume d: "distinct (stored_keys st)"
  then show d': "distinct (stored_keys (fst (sync_account resolve san acct st raws)))"
    unfolding sync_account_def using sync_fold_distinct by simp
  define st1 where "st1 = fst (sync_account resolve san acct st raws)"
  have "m1 = m2" if "m1 \<in> set (messages st1)" "m2 \<in> set (messages st1)"
    "m_account m1 = m_account m2" "m_external_id m1 = m_external_id m2"
    "m_external_id m1 \<noteq> None" for m1 m2
  proof -
    from that obtain k where k: "m_external_id m1 = Some k" "m_external_id m2 = Some k" by auto
    let ?f = "\<lambda>m. map_option (\<lambda>k. (m_account m, k)) (m_external_id m)"
    from d' have "distinct (List.map_filter ?f (messages st1))"
      by (simp add: stored_keys_def st1_def)
    moreover have "?f m1 = Some (m_account m1, k)" "?f m2 = Some (m_account m1, k)"
      using k that by simp_all
    ultimately show ?thesis using that(1,2) distinct_keys_same_row [of ?f "messages st1" m1 m2]
      by blast
  qed
  then show "\<forall>m1\<in>set (messages (fst (sync_account resolve san acct st raws))).
       \<forall>m2\<in>set (messages (fst (sync_account resolve san acct st raws))).
         m_account m1 = m_account m2 \<and> m_external_id m1 = m_external_id m2 \<and>
         m_external_id m1 \<noteq> None \<longrightarrow> m1 = m2"
    unfolding st1_def by blast
next
  assume r: "\<forall>raw\<in>set raws. resolve acct raw \<noteq> None"
  define st1 where "st1 = fst (sync_account resolve san acct st raws)"
  have "\<forall>raw\<in>set raws. \<exists>k. resolve acct raw = Some k \<and> (acct, k) \<in> set (stored_keys st1)"
  proof
    fix raw assume m: "raw \<in> set raws"
    with r obtain k where k: "resolve acct raw = Some k" by auto
    with m have "(acct, k) \<in> set (stored_keys st1)"
      unfolding st1_def sync_account_def by (rule sync_fold_has_keys)
    with k show "\<exists>k. resolve acct raw = Some k \<and> (acct, k) \<in> set (stored_keys st1)" by simp
  qed
  then have "sync_account resolve san acct st1 raws =
      (st1, \<lparr>fetched = length raws, inserted = 0, skipped = length raws\<rparr>)"
    unfolding sync_account_def by (simp add: sync_fold_all_skipped)
  then show "sync_account resolve san acct
        (fst (sync_account resolve san acct st raws)) raws =
      (fst (sync_account resolve san acct st raws),
       \<lparr>fetched = length raws, inserted = 0, skipped = length raws\<rparr>)"
    unfolding st1_def .
next
  assume "hide t i st = Inr st'"
  then show "stored_keys st' = stored_keys st" by (rule stored_keys_hide)
next
  assume "restore t i st = Inr st'"
  then show "stored_keys st' = stored_keys st" by (rule stored_keys_restore)
qed


theorem sync_dedup_witness:
  "distinct (stored_keys (fst (sync_account provider_id example_sanitize 1 empty_store
      [raw_with_id (Some ''X123''), raw_with_id (Some ''X123'')]))) \<and>
   stored_keys (fst (sync_account provider_id example_sanitize 1 empty_store
      [raw_with_id (Some ''X123''), raw_with_id (Some ''X123'')])) = [(1, ''X123'')] \<and>
   skipped (snd (sync_account provider_id example_sanitize 1 empty_store
      [raw_with_id (Some ''X123''), raw_with_id (Some ''X123'')])) = 1 \<and>
   inserted (snd (sync_account provider_id example_sanitize 1
      (fst (sync_account provider_id example_sanitize 1 empty_store
         [raw_with_id (Some ''X123''), raw_with_id (Some ''X123'')]))
      [raw_with_id (Some ''X123''), raw_with_id (Some ''X123'')])) = 0"
proof -
  let ?raws = "[raw_with_id (Some ''X123''), raw_with_id (Some ''X123'')]"
  note t = sync_dedup [of empty_store provider_id example_sanitize 1 ?raws 0 0 empty_store]
  have r: "\<forall>raw\<in>set ?raws. provider_id 1 raw \<noteq> None"
    by (simp add: provider_id_def raw_with_id_def)
  from t have "distinct (stored_keys (fst (sync_account provider_id example_sanitize 1 empty_store ?raws)))"
    by blast
  moreover from t r have "inserted (snd (sync_account provider_id example_sanitize 1
      (fst (sync_account provider_id example_sanitize 1 empty_store ?raws)) ?raws)) = 0"
    by simp
  moreover have "stored_keys (fst (sync_account provider_id example_sanitize 1 empty_store ?raws))
      = [(1, ''X123'')]"
    by code_simp
  moreover have "skipped (snd (sync_account provider_id example_sanitize 1 empty_store ?raws)) = 1"
    by code_simp
  ultimately show ?thesis by blast
qed

text \<open>
  The claim as it is written fails for a message without a stable identity, which
  section 4.1 has treated as unique and stored, the risk of a duplicate accepted: the
  second sync over the same mailbox inserts it again.
\<close>

theorem resync_without_identity_counterexample:
  "inserted (snd (sync_account no_identity example_sanitize 1
      (fst (sync_account no_identity example_sanitize 1 empty_store [raw_with_id None]))
      [raw_with_id None])) = 1 \<and>
   length (messages (fst (sync_account no_identity example_sanitize 1
      (fst (sync_account no_identity example_sanitize 1 empty_store [raw_with_id None]))
      [raw_with_id None]))) = 2"
  by code_simp


section \<open>The backend: hide and restore\<close>

lemma find_set_hidden:
  "find (\<lambda>m. m_id m = j) (set_hidden i b ms) =
     map_option (\<lambda>m. if m_id m = i then m\<lparr>m_hidden := b\<rparr> else m) (find (\<lambda>m. m_id m = j) ms)"
  by (induction ms) (auto simp: set_hidden_def)

lemma visibility_set_hidden:
  "visibility (st\<lparr>messages := set_hidden i b (messages st), audit_log := l\<rparr>) j =
     (if j = i then map_option (\<lambda>_. b) (visibility st i) else visibility st j)"
proof (cases "find (\<lambda>m. m_id m = j) (messages st)")
  case None
  then show ?thesis
    by (auto simp: visibility_def find_message_def find_set_hidden)
next
  case (Some m)
  then have "m_id m = j" by (auto simp: find_Some_iff)
  with Some show ?thesis
    by (auto simp: visibility_def find_message_def find_set_hidden)
qed

lemma hide_visible:
  assumes "visibility st i = Some False"
  shows "\<exists>st1 e. hide t i st = Inr st1 \<and> visibility st1 i = Some True \<and>
           (\<forall>j. j \<noteq> i \<longrightarrow> visibility st1 j = visibility st j) \<and>
           audit_log st1 = audit_log st @ [e] \<and>
           a_message e = i \<and> a_action e = audit_delete \<and> a_time e = t"
proof -
  from assms obtain m where m: "find_message st i = Some m" "\<not> m_hidden m"
    by (auto simp: visibility_def)
  then have "hide t i st = Inr (st\<lparr>messages := set_hidden i True (messages st),
      audit_log := audit_log st @
        [\<lparr>a_account = m_account m, a_message = i, a_action = audit_delete, a_time = t\<rparr>]\<rparr>)"
    by (simp add: hide_def)
  then show ?thesis using assms by (simp add: visibility_set_hidden)
qed

lemma restore_hidden:
  assumes "visibility st i = Some True"
  shows "\<exists>st1 e. restore t i st = Inr st1 \<and> visibility st1 i = Some False \<and>
           (\<forall>j. j \<noteq> i \<longrightarrow> visibility st1 j = visibility st j) \<and>
           audit_log st1 = audit_log st @ [e] \<and>
           a_message e = i \<and> a_action e = audit_restore \<and> a_time e = t"
proof -
  from assms obtain m where m: "find_message st i = Some m" "m_hidden m"
    by (auto simp: visibility_def)
  then have "restore t i st = Inr (st\<lparr>messages := set_hidden i False (messages st),
      audit_log := audit_log st @
        [\<lparr>a_account = m_account m, a_message = i, a_action = audit_restore, a_time = t\<rparr>]\<rparr>)"
    by (simp add: restore_def)
  then show ?thesis using assms by (simp add: visibility_set_hidden)
qed

lemma hide_hidden: "visibility st i = Some True \<Longrightarrow> hide t i st = Inr st"
  by (auto simp: visibility_def hide_def)

lemma restore_visible: "visibility st i = Some False \<Longrightarrow> restore t i st = Inr st"
  by (auto simp: visibility_def restore_def)

lemma hide_result_hidden: "hide t i st = Inr st1 \<Longrightarrow> visibility st1 i = Some True"
proof -
  assume h: "hide t i st = Inr st1"
  then obtain m where m: "find_message st i = Some m"
    by (auto simp: hide_def split: option.splits)
  show ?thesis
  proof (cases "m_hidden m")
    case True
    with m h show ?thesis by (simp add: hide_def visibility_def)
  next
    case False
    with m have "visibility st i = Some False" by (simp add: visibility_def)
    from hide_visible [OF this, of t] h show ?thesis by auto
  qed
qed

lemma restore_result_visible: "restore t i st = Inr st1 \<Longrightarrow> visibility st1 i = Some False"
proof -
  assume h: "restore t i st = Inr st1"
  then obtain m where m: "find_message st i = Some m"
    by (auto simp: restore_def split: option.splits)
  show ?thesis
  proof (cases "m_hidden m")
    case False
    with m h show ?thesis by (simp add: restore_def visibility_def)
  next
    case True
    with m have "visibility st i = Some True" by (simp add: visibility_def)
    from restore_hidden [OF this, of t] h show ?thesis by auto
  qed
qed

text \<open>
  C6, on the model of the specification. \<open>hide\<close> and \<open>restore\<close> are idempotent: applied
  again to their own result they change nothing, \<open>hide\<close> on a hidden message and
  \<open>restore\<close> on a visible one are no-ops. For a message that is visible, \<open>hide\<close> followed
  by \<open>restore\<close> gives every message the visibility it had before. Every transition
  (hiding a visible message, restoring a hidden one) appends exactly one audit entry,
  with the message, the action and the time.
\<close>

theorem hide_restore:
  "(hide t i st = Inr st1 \<longrightarrow> hide t' i st1 = Inr st1) \<and>
   (restore t i st = Inr st1 \<longrightarrow> restore t' i st1 = Inr st1) \<and>
   (visibility st i = Some True \<longrightarrow> hide t i st = Inr st) \<and>
   (visibility st i = Some False \<longrightarrow> restore t i st = Inr st) \<and>
   (visibility st i = Some False \<and> hide t i st = Inr st1 \<and> restore t' i st1 = Inr st2 \<longrightarrow>
      (\<forall>j. visibility st2 j = visibility st j)) \<and>
   (visibility st i = Some False \<longrightarrow>
      (\<exists>s1 e. hide t i st = Inr s1 \<and> visibility s1 i = Some True \<and>
         audit_log s1 = audit_log st @ [e] \<and>
         a_message e = i \<and> a_action e = audit_delete \<and> a_time e = t)) \<and>
   (visibility st i = Some True \<longrightarrow>
      (\<exists>s1 e. restore t i st = Inr s1 \<and> visibility s1 i = Some False \<and>
         audit_log s1 = audit_log st @ [e] \<and>
         a_message e = i \<and> a_action e = audit_restore \<and> a_time e = t))"
proof (intro conjI impI)
  assume "hide t i st = Inr st1"
  then show "hide t' i st1 = Inr st1"
    using hide_result_hidden hide_hidden by blast
next
  assume "restore t i st = Inr st1"
  then show "restore t' i st1 = Inr st1"
    using restore_result_visible restore_visible by blast
next
  assume "visibility st i = Some True"
  then show "hide t i st = Inr st" by (rule hide_hidden)
next
  assume "visibility st i = Some False"
  then show "restore t i st = Inr st" by (rule restore_visible)
next
  assume a: "visibility st i = Some False \<and> hide t i st = Inr st1 \<and> restore t' i st1 = Inr st2"
  from a hide_visible [of st i t] have 1: "visibility st1 i = Some True"
    "\<forall>j. j \<noteq> i \<longrightarrow> visibility st1 j = visibility st j"
    by auto
  from a restore_hidden [OF 1(1), of t'] have 2: "visibility st2 i = Some False"
    "\<forall>j. j \<noteq> i \<longrightarrow> visibility st2 j = visibility st1 j"
    by auto
  show "\<forall>j. visibility st2 j = visibility st j"
  proof
    fix j show "visibility st2 j = visibility st j"
      using a 1 2 by (cases "j = i") auto
  qed
next
  assume "visibility st i = Some False"
  from hide_visible [OF this, of t]
  show "\<exists>s1 e. hide t i st = Inr s1 \<and> visibility s1 i = Some True \<and>
         audit_log s1 = audit_log st @ [e] \<and>
         a_message e = i \<and> a_action e = audit_delete \<and> a_time e = t"
    by blast
next
  assume "visibility st i = Some True"
  from restore_hidden [OF this, of t]
  show "\<exists>s1 e. restore t i st = Inr s1 \<and> visibility s1 i = Some False \<and>
         audit_log s1 = audit_log st @ [e] \<and>
         a_message e = i \<and> a_action e = audit_restore \<and> a_time e = t"
    by blast
qed


theorem hide_restore_witness:
  "visibility (one_hidden\<lparr>audit_log := []\<rparr>) 1 = Some True \<and>
   (\<exists>s1 s2 s3.
      restore 5 1 (one_hidden\<lparr>audit_log := []\<rparr>) = Inr s1 \<and> restore 6 1 s1 = Inr s1 \<and>
      visibility s1 1 = Some False \<and> length (audit_log s1) = 1 \<and>
      hide 7 1 s1 = Inr s2 \<and> hide 8 1 s2 = Inr s2 \<and> restore 9 1 s2 = Inr s3 \<and>
      (\<forall>j. visibility s3 j = visibility s1 j))"
proof -
  let ?s = "one_hidden\<lparr>audit_log := []\<rparr>"
  have v: "visibility ?s 1 = Some True"
    by (simp add: one_hidden_def visibility_def find_message_def)
  with hide_restore [of 5 1 ?s _ 6] obtain s1 e where
    s1: "restore 5 1 ?s = Inr s1" "visibility s1 1 = Some False" "audit_log s1 = audit_log ?s @ [e]"
    by blast
  from s1(1) hide_restore [of 5 1 ?s s1 6] have r2: "restore 6 1 s1 = Inr s1" by blast
  from s1(2) hide_restore [of 7 1 s1 _ 8] obtain s2 where
    s2: "hide 7 1 s1 = Inr s2" "visibility s2 1 = Some True"
    by blast
  from s2(1) hide_restore [of 7 1 s1 s2 8] have h2: "hide 8 1 s2 = Inr s2" by blast
  from s2(2) hide_restore [of 9 1 s2 _ 9] obtain s3 where s3: "restore 9 1 s2 = Inr s3"
    by blast
  from s1(2) s2(1) s3 hide_restore [of 7 1 s1 s2 9 s3]
  have "\<forall>j. visibility s3 j = visibility s1 j" by blast
  moreover from s1(3) have "length (audit_log s1) = 1" by simp
  ultimately show ?thesis using v s1 r2 s2 h2 s3 by blast
qed

text \<open>
  The claim as it is written fails for a message that is hidden before the \<open>hide\<close>:
  the \<open>hide\<close> is a no-op, the \<open>restore\<close> makes the message visible, and its visibility
  is not the one it had before the \<open>hide\<close>.
\<close>

theorem hide_restore_counterexample:
  "visibility one_hidden 1 = Some True \<and>
   hide 11 1 one_hidden = Inr one_hidden \<and>
   (\<exists>st2. restore 12 1 one_hidden = Inr st2 \<and> visibility st2 1 = Some False)"
  by (simp add: one_hidden_def hide_def restore_def visibility_def find_message_def set_hidden_def)


section \<open>The Sanitizer: no scripts, no event handlers\<close>

lemma sanitize_attrs_no_handler:
  "\<not> list_ex (\<lambda>a. event_handler (fst a)) (sanitize_attrs css name attrs)"
  by (auto simp: sanitize_attrs_def sanitize_attr_def list_ex_iff)

lemma sanitize_node_clean:
  "n' \<in> set (sanitize_node css n) \<Longrightarrow> \<not> has_script n' \<and> \<not> has_handler n'"
proof (induction css n arbitrary: n' rule: sanitize_node.induct)
  case (1 css t)
  then show ?case by simp
next
  case (2 css name attrs kids)
  show ?case
  proof (cases "removed_element name")
    case True
    with 2 show ?thesis by simp
  next
    case False
    with "2.prems" have n': "n' = Element name (sanitize_attrs css name attrs)
        (concat (map (sanitize_node css) kids))"
      by simp
    from False have "toLowerCase name \<noteq> ''script''"
      by (simp add: removed_element_def)
    moreover have "\<not> list_ex has_script (concat (map (sanitize_node css) kids))"
      "\<not> list_ex has_handler (concat (map (sanitize_node css) kids))"
      using "2.IH" [OF False] by (auto simp: list_ex_iff)
    ultimately show ?thesis
      using n' sanitize_attrs_no_handler by simp
  qed
qed

text \<open>
  C5, on the model of the specification. For every raw HTML text, also one that is
  absent or that the parser fails on, and whatever the parser makes of it, the
  document the Sanitizer gives holds no \<open>script\<close> element and no event-handler
  attribute at any depth. The Sanitizer gives a result for every input: where the
  parser fails, it is the raw text wrapped as plain text, so that sanitizing never
  fails a sync.
\<close>

theorem sanitize_output_clean:
  "(\<forall>n \<in> set (fst (sanitize parse css raw)). \<not> has_script n \<and> \<not> has_handler n) \<and>
   (\<forall>h. raw = Some h \<and> parse h = None \<longrightarrow>
      sanitize parse css raw = ([Element ''pre'' [] [Text h]], []))"
proof -
  have "\<not> has_script n \<and> \<not> has_handler n" if "n \<in> set (fst (sanitize parse css raw))" for n
  proof (cases raw)
    case None
    with that show ?thesis by (simp add: sanitize_def)
  next
    case (Some h)
    show ?thesis
    proof (cases "parse h")
      case None
      with Some that show ?thesis
        by (simp add: sanitize_def toLowerCase_def lower_char_def)
    next
      case (Some doc)
      with \<open>raw = Some h\<close> that obtain d where "d \<in> set doc" "n \<in> set (sanitize_node css d)"
        by (auto simp: sanitize_def)
      then show ?thesis using sanitize_node_clean by blast
    qed
  qed
  then show ?thesis by (auto simp: sanitize_def)
qed


theorem sanitize_output_clean_witness:
  "fst (sanitize example_parse example_css (Some ''<p onclick=x>hi<script>y</script></p>''))
     = [Element ''p'' [] [Text ''hi'']] \<and>
   \<not> has_script (Element ''p'' [] [Text ''hi'']) \<and> \<not> has_handler (Element ''p'' [] [Text ''hi'']) \<and>
   example_parse ''<p onclick=x>hi<scr'' = None \<and>
   sanitize example_parse example_css (Some ''<p onclick=x>hi<scr'')
     = ([Element ''pre'' [] [Text ''<p onclick=x>hi<scr'']], [])"
proof -
  have a: "fst (sanitize example_parse example_css (Some ''<p onclick=x>hi<script>y</script></p>''))
     = [Element ''p'' [] [Text ''hi'']]"
    by code_simp
  have b: "example_parse ''<p onclick=x>hi<scr'' = None"
    by (simp add: example_parse_def)
  from sanitize_output_clean [of example_parse example_css
      "Some ''<p onclick=x>hi<script>y</script></p>''"] a
  have "\<not> has_script (Element ''p'' [] [Text ''hi'']) \<and> \<not> has_handler (Element ''p'' [] [Text ''hi''])"
    by simp
  moreover from sanitize_output_clean [of example_parse example_css "Some ''<p onclick=x>hi<scr''"] b
  have "sanitize example_parse example_css (Some ''<p onclick=x>hi<scr'')
     = ([Element ''pre'' [] [Text ''<p onclick=x>hi<scr'']], [])"
    by blast
  ultimately show ?thesis using a b by blast
qed

end
